theory Spec2Isabelle
  imports Main "HOL-Library.Word"
begin

section \<open>Ticket checker: the three programs of the repository\<close>

text \<open>
  The repository holds three variants of one polling program:
  \<^item> \<open>btn\<close>: the first program of \<open>main.go\<close>; it waits for the element \<open>.nextBtn\<close>,
    sends one mail and exits;
  \<^item> \<open>mail\<close>: \<open>unnamed/part_000\<close>; it reads the texts of the ticket areas, sends a
    mail and keeps monitoring;
  \<^item> \<open>auto\<close>: the second program of \<open>main.go\<close>; it keeps a global browser allocator,
    reads the texts of the ticket areas and opens a visible browser that fills the form.
  Functions that the three programs share under one name carry the suffix of their
  program.  The browser (chromedp), the mail transport (gomail), the environment and
  the clock are collaborators: they are parameters of the model.  Time is counted in
  nanoseconds, as \<open>time.Duration\<close> does.
\<close>

subsection \<open>Durations\<close>

definition Millisecond :: nat where
  "Millisecond = 1000000"

definition Second :: nat where
  "Second = 1000000000"

definition Minute :: nat where
  "Minute = 60 * Second"

subsection \<open>Strings\<close>

text \<open>
  A Go string is a sequence of bytes, and so is a HOL \<open>string\<close>.
  \<open>strings.Contains s substr\<close> holds when \<open>substr\<close> occurs in \<open>s\<close>.
\<close>

fun HasPrefix :: "string \<Rightarrow> string \<Rightarrow> bool" where
  "HasPrefix s [] = True"
| "HasPrefix [] (p # ps) = False"
| "HasPrefix (c # cs) (p # ps) = (c = p \<and> HasPrefix cs ps)"

fun Contains :: "string \<Rightarrow> string \<Rightarrow> bool" where
  "Contains [] substr = (substr = [])"
| "Contains (c # cs) substr = (HasPrefix (c # cs) substr \<or> Contains cs substr)"

text \<open>\<open>strings.ReplaceAll s " " ""\<close> removes every space.\<close>

definition remove_spaces :: "string \<Rightarrow> string" where
  "remove_spaces s = filter (\<lambda>c. c \<noteq> CHR '' '') s"

text \<open>
  The two keywords of the ticket-area scan, as UTF-8 bytes: "remaining"
  (U+5269 U+9918) and "hot-selling" (U+71B1 U+8CE3 U+4E2D).
\<close>

definition kw_remaining :: string where
  "kw_remaining = [CHR 0xE5, CHR 0x89, CHR 0xA9, CHR 0xE9, CHR 0xA4, CHR 0x98]"

definition kw_hot :: string where
  "kw_hot = [CHR 0xE7, CHR 0x86, CHR 0xB1, CHR 0xE8, CHR 0xB3, CHR 0xA3,
             CHR 0xE4, CHR 0xB8, CHR 0xAD]"

definition ticket_keywords :: "string set" where
  "ticket_keywords = {kw_remaining, kw_hot}"

text \<open>\<open>context.DeadlineExceeded.Error()\<close>.\<close>

definition deadlineExceeded :: string where
  "deadlineExceeded = ''context deadline exceeded''"

subsection \<open>The browser collaborator\<close>

text \<open>
  The actions the programs hand to \<open>chromedp.Run\<close>.  \<open>Allocate\<close> is the start of the
  browser process, which \<open>Run\<close> performs itself on the first call on a context.
  \<open>EvaluateTexts\<close> is the script collecting the \<open>font\<close> texts of \<open>group_0\<close> .. \<open>group_6\<close>;
  \<open>EvaluateSelect\<close> is the script choosing one ticket in the first price selector.
\<close>

datatype action =
    Allocate
  | Navigate string
  | WaitVisible string
  | EvaluateTexts
  | EvaluateSelect
  | Sleep nat
  | Click string
  | Focus string

text \<open>
  What the browser would do with an action if it were given unlimited time: finish
  after some time with \<open>nil\<close> (\<open>None\<close>) or with an error message, or never finish
  (an element that never becomes visible, a page that never loads).
\<close>

datatype behaviour = Completes nat "string option" | Hangs

text \<open>
  The page as one probe sees it: the behaviour of each action, for each index \<open>i\<close>
  the texts of the \<open>font\<close> elements below \<open>group_i\<close> (\<open>None\<close>: no such element), and
  the number of \<open>select\<close> elements whose name begins with \<open>TicketForm[ticketPrice]\<close>.
\<close>

record browser =
  respond :: "action \<Rightarrow> behaviour"
  groups :: "nat \<Rightarrow> string list option"
  price_selects :: nat

definition behaviour_of :: "browser \<Rightarrow> action \<Rightarrow> behaviour" where
  "behaviour_of b a = (case a of Sleep d \<Rightarrow> Completes d None | _ \<Rightarrow> respond b a)"

text \<open>
  An action under a context whose deadline is \<open>left\<close> away: it returns its own result
  if it finishes before the deadline, and \<open>ctx.Err()\<close> at the deadline otherwise.
  The result is the time spent and the error.
\<close>

fun perform :: "nat \<Rightarrow> behaviour \<Rightarrow> nat \<times> string option" where
  "perform left Hangs = (left, Some deadlineExceeded)"
| "perform left (Completes d r) =
     (if d < left then (d, r) else (left, Some deadlineExceeded))"

text \<open>\<open>Tasks.Do\<close>: the actions in order, stopping at the first error.\<close>

fun run_actions :: "browser \<Rightarrow> nat \<Rightarrow> action list \<Rightarrow> nat \<times> string option" where
  "run_actions b left [] = (0, None)"
| "run_actions b left (a # as) =
     (case perform left (behaviour_of b a) of
        (t, Some e) \<Rightarrow> (t, Some e)
      | (t, None) \<Rightarrow> (case run_actions b (left - t) as of (t', r) \<Rightarrow> (t + t', r)))"

text \<open>
  \<open>chromedp.Run\<close> on a fresh context with a timeout: the browser is allocated first,
  under the same deadline.
\<close>

definition Run :: "browser \<Rightarrow> nat \<Rightarrow> action list \<Rightarrow> nat \<times> string option" where
  "Run b timeout as = run_actions b timeout (Allocate # as)"

text \<open>
  The script of \<open>EvaluateTexts\<close>: for \<open>i\<close> from 0 to 6, the texts of the \<open>font\<close>
  elements of \<open>group_i\<close> when that element exists, in document order.
\<close>

definition extract_texts :: "browser \<Rightarrow> string list" where
  "extract_texts b =
     concat (map (\<lambda>i. case groups b i of None \<Rightarrow> [] | Some fonts \<Rightarrow> fonts) [0..<7])"

subsection \<open>Log lines, effects and results\<close>

text \<open>
  One constructor for each \<open>log.Println\<close>/\<open>log.Printf\<close> of \<open>checkTicketAvailability\<close>,
  \<open>sendEmailNotification\<close>, \<open>autoFillAndWaitForCaptcha\<close> and \<open>runCheck\<close>, with the
  values it prints; the fixed wording of the lines is left out, and \<open>LogFillSummary\<close>
  stands for the seven lines that sum up a finished auto-fill.  The lines that \<open>main\<close>
  and \<open>initBrowser\<close> print are not followed.
\<close>

datatype logline =
    LogChecking string
  | LogButtonNotFound
  | LogListNotFound
  | LogChromeError string
  | LogButtonFound
  | LogFoundArea string
  | LogAllSoldOut nat
  | LogPreparingMail string
  | LogMailSent
  | LogCheckError string
  | LogFoundSending
  | LogMailError string
  | LogSentExiting
  | LogSentContinuing
  | LogOpeningBrowser
  | LogUsingChrome string
  | LogNavigating
  | LogFillError string
  | LogFillSummary
  | LogLaunchingAutoFill
  | LogAutoFillFailed string
  | LogGoManually string
  | LogAutoFillDone
  | LogKeepRunningHint

record dialer =
  d_host :: string
  d_port :: int
  d_user :: string
  d_password :: string

record message =
  m_from :: string
  m_to :: string
  m_link :: string

text \<open>
  The observable effects of a check cycle: a log line, one \<open>DialAndSend\<close>, and the
  start of the visible browser of the auto-fill (with the executable path when one
  was found).
\<close>

datatype event =
    Log logline
  | SendMail dialer message
  | VisibleBrowser "string option"

text \<open>The value of \<open>checkTicketAvailability\<close>, with what it logged and how long it took.\<close>

record probe =
  available :: bool
  err :: "string option"
  plog :: "logline list"
  ptime :: nat

subsection \<open>checkTicketAvailability\<close>

text \<open>The loop over \<open>fontTexts\<close>: the first text holding a keyword, if any.\<close>

fun scan_texts :: "string list \<Rightarrow> string option" where
  "scan_texts [] = None"
| "scan_texts (text # rest) =
     (if Contains text kw_remaining \<or> Contains text kw_hot then Some text
      else scan_texts rest)"

text \<open>Program \<open>btn\<close>: the appearance of \<open>.nextBtn\<close> is the signal.\<close>

definition checkTicketAvailability_btn :: "browser \<Rightarrow> string \<Rightarrow> probe" where
  "checkTicketAvailability_btn b url =
     (case Run b (30 * Second) [Navigate url, WaitVisible ''.nextBtn''] of
        (t, Some e) \<Rightarrow>
          (if Contains e deadlineExceeded
           then \<lparr>available = False, err = None,
                 plog = [LogChecking url, LogButtonNotFound], ptime = t\<rparr>
           else \<lparr>available = False, err = Some e,
                 plog = [LogChecking url, LogChromeError e], ptime = t\<rparr>)
      | (t, None) \<Rightarrow>
          \<lparr>available = True, err = None,
           plog = [LogChecking url, LogButtonFound], ptime = t\<rparr>)"

text \<open>
  Programs \<open>mail\<close> and \<open>auto\<close> run the same actions and the same scan; they differ in
  the context the actions run in (a fresh allocator, or the global one).
\<close>

definition check_texts :: "browser \<Rightarrow> string \<Rightarrow> probe" where
  "check_texts b url =
     (case Run b (30 * Second) [Navigate url, WaitVisible ''#group_0'', EvaluateTexts] of
        (t, Some e) \<Rightarrow>
          (if Contains e deadlineExceeded
           then \<lparr>available = False, err = None,
                 plog = [LogChecking url, LogListNotFound], ptime = t\<rparr>
           else \<lparr>available = False, err = Some e,
                 plog = [LogChecking url, LogChromeError e], ptime = t\<rparr>)
      | (t, None) \<Rightarrow>
          (let fontTexts = extract_texts b in
           case scan_texts fontTexts of
             Some text \<Rightarrow>
               \<lparr>available = True, err = None,
                plog = [LogChecking url, LogFoundArea text], ptime = t\<rparr>
           | None \<Rightarrow>
               \<lparr>available = False, err = None,
                plog = [LogChecking url, LogAllSoldOut (length fontTexts)], ptime = t\<rparr>))"

definition checkTicketAvailability_mail :: "browser \<Rightarrow> string \<Rightarrow> probe" where
  "checkTicketAvailability_mail b url = check_texts b url"

subsection \<open>Configuration\<close>

text \<open>
  \<open>time.Duration\<close> is a signed 64-bit count of nanoseconds.  Program \<open>auto\<close> has the
  two fields of \<open>Config_auto\<close>; programs \<open>btn\<close> and \<open>mail\<close> have all seven.
\<close>

record Config_auto =
  TargetURL :: string
  CheckInterval :: "64 word"

record Config = Config_auto +
  RecipientEmail :: string
  SenderEmail :: string
  SenderPassword :: string
  SmtpHost :: string
  SmtpPort :: int

text \<open>One value for each message a \<open>configError\<close> is built with.\<close>

datatype configError =
    PortNotNumber
  | IntervalNotNumber
  | TargetURLUnset
  | RecipientUnset
  | SenderUnset
  | PasswordUnset
  | SmtpHostUnset

text \<open>\<open>os.Getenv\<close>: the value of the variable, empty when it is not set.\<close>

definition Getenv :: "(string \<rightharpoonup> string) \<Rightarrow> string \<Rightarrow> string" where
  "Getenv env k = (case env k of None \<Rightarrow> [] | Some v \<Rightarrow> v)"

text \<open>
  \<open>strconv.Atoi\<close> on a 64-bit platform: an optional sign, then one or more decimal
  digits, and a value that fits \<open>int\<close>; every other string is an error.
\<close>

definition digit_of :: "char \<Rightarrow> nat option" where
  "digit_of ch =
     (let n = (of_char ch :: nat) in if 48 \<le> n \<and> n \<le> 57 then Some (n - 48) else None)"

fun digits_val :: "nat \<Rightarrow> string \<Rightarrow> nat option" where
  "digits_val n [] = Some n"
| "digits_val n (ch # s) =
     (case digit_of ch of None \<Rightarrow> None | Some d \<Rightarrow> digits_val (n * 10 + d) s)"

definition Atoi :: "string \<Rightarrow> int option" where
  "Atoi s0 =
     (case s0 of
        [] \<Rightarrow> None
      | c # rest \<Rightarrow>
          (let s = (if c = CHR ''-'' \<or> c = CHR ''+'' then rest else s0) in
           if s = [] then None
           else case digits_val 0 s of
                  None \<Rightarrow> None
                | Some n \<Rightarrow>
                    (let v = (if c = CHR ''-'' then - int n else int n) in
                     if - (2 ^ 63) \<le> v \<and> v < 2 ^ 63 then Some v else None)))"

text \<open>\<open>time.Duration(interval) * time.Second\<close>: a 64-bit product, which wraps.\<close>

definition seconds :: "int \<Rightarrow> 64 word" where
  "seconds interval = word_of_int interval * 1000000000"

definition loadConfig :: "(string \<rightharpoonup> string) \<Rightarrow> configError + Config" where
  "loadConfig env =
     (let portStr = Getenv env ''SMTP_PORT'';
          portStr = (if portStr = [] then ''587'' else portStr) in
      case Atoi portStr of
        None \<Rightarrow> Inl PortNotNumber
      | Some port \<Rightarrow>
          (let intervalStr = Getenv env ''CHECK_INTERVAL_SECONDS'';
               intervalStr = (if intervalStr = [] then ''60'' else intervalStr) in
           case Atoi intervalStr of
             None \<Rightarrow> Inl IntervalNotNumber
           | Some interval \<Rightarrow>
               (let config = \<lparr>TargetURL = Getenv env ''TARGET_URL'',
                              CheckInterval = seconds interval,
                              RecipientEmail = Getenv env ''RECIPIENT_EMAIL'',
                              SenderEmail = Getenv env ''SENDER_EMAIL'',
                              SenderPassword = remove_spaces (Getenv env ''SENDER_PASSWORD''),
                              SmtpHost = Getenv env ''SMTP_HOST'',
                              SmtpPort = port\<rparr> in
                if TargetURL config = [] then Inl TargetURLUnset
                else if RecipientEmail config = [] then Inl RecipientUnset
                else if SenderEmail config = [] then Inl SenderUnset
                else if SenderPassword config = [] then Inl PasswordUnset
                else if SmtpHost config = [] then Inl SmtpHostUnset
                else Inr config)))"

definition loadConfig_auto :: "(string \<rightharpoonup> string) \<Rightarrow> configError + Config_auto" where
  "loadConfig_auto env =
     (let intervalStr = Getenv env ''CHECK_INTERVAL_SECONDS'';
          intervalStr = (if intervalStr = [] then ''60'' else intervalStr) in
      case Atoi intervalStr of
        None \<Rightarrow> Inl IntervalNotNumber
      | Some interval \<Rightarrow>
          (let config = \<lparr>TargetURL = Getenv env ''TARGET_URL'',
                         CheckInterval = seconds interval\<rparr> in
           if TargetURL config = [] then Inl TargetURLUnset else Inr config))"

text \<open>
  The start of \<open>main\<close>, up to the scheduling loop: \<open>log.Fatalf\<close> ends the process with
  status 1 when the configuration is refused, and \<open>time.NewTicker\<close> panics on an
  interval that is not positive.
\<close>

datatype 'c startup = Fatal configError | TickerPanic | Scheduling 'c

definition main_startup :: "configError + ('a Config_auto_scheme) \<Rightarrow> ('a Config_auto_scheme) startup" where
  "main_startup loaded =
     (case loaded of
        Inl e \<Rightarrow> Fatal e
      | Inr config \<Rightarrow>
          (if sint (CheckInterval config) \<le> 0 then TickerPanic else Scheduling config))"

subsection \<open>The collaborators of one check cycle\<close>

text \<open>
  What one cycle finds around it: the page in the headless browser, the mail
  transport (\<open>DialAndSend\<close>: the time it takes and its error), the page in the visible
  browser of the auto-fill, and the files \<open>os.Stat\<close> finds.
\<close>

record world =
  page :: browser
  smtp :: "dialer \<Rightarrow> message \<Rightarrow> nat \<times> string option"
  visible :: browser
  file_exists :: "string \<Rightarrow> bool"

text \<open>
  How a cycle ends: \<open>runCheck\<close> returns, the process exits with a status, or it panics.
\<close>

datatype status = Continue | Exit int | Panic

record cycle =
  events :: "event list"
  status :: status
  elapsed :: nat

subsection \<open>sendEmailNotification and runCheck of btn and mail\<close>

definition sendEmailNotification ::
  "Config \<Rightarrow> (dialer \<Rightarrow> message \<Rightarrow> nat \<times> string option) \<Rightarrow> event list \<times> string option \<times> nat" where
  "sendEmailNotification config send =
     (let m = \<lparr>m_from = SenderEmail config, m_to = RecipientEmail config,
               m_link = TargetURL config\<rparr>;
          d = \<lparr>d_host = SmtpHost config, d_port = SmtpPort config,
               d_user = SenderEmail config, d_password = SenderPassword config\<rparr> in
      case send d m of
        (t, Some e) \<Rightarrow> ([Log (LogPreparingMail (RecipientEmail config)), SendMail d m], Some e, t)
      | (t, None) \<Rightarrow>
          ([Log (LogPreparingMail (RecipientEmail config)), SendMail d m, Log LogMailSent],
           None, t))"

definition runCheck_btn :: "Config \<Rightarrow> world \<Rightarrow> cycle" where
  "runCheck_btn config w =
     (let p = checkTicketAvailability_btn (page w) (TargetURL config) in
      case err p of
        Some e \<Rightarrow>
          \<lparr>events = map Log (plog p) @ [Log (LogCheckError e)], status = Continue,
           elapsed = ptime p\<rparr>
      | None \<Rightarrow>
          (if available p then
             (case sendEmailNotification config (smtp w) of
                (evs, Some e, t) \<Rightarrow>
                  \<lparr>events = map Log (plog p) @ [Log LogFoundSending] @ evs @ [Log (LogMailError e)],
                   status = Continue, elapsed = ptime p + t\<rparr>
              | (evs, None, t) \<Rightarrow>
                  \<lparr>events = map Log (plog p) @ [Log LogFoundSending] @ evs @ [Log LogSentExiting],
                   status = Exit 0, elapsed = ptime p + t\<rparr>)
           else \<lparr>events = map Log (plog p), status = Continue, elapsed = ptime p\<rparr>))"

definition runCheck_mail :: "Config \<Rightarrow> world \<Rightarrow> cycle" where
  "runCheck_mail config w =
     (let p = checkTicketAvailability_mail (page w) (TargetURL config) in
      case err p of
        Some e \<Rightarrow>
          \<lparr>events = map Log (plog p) @ [Log (LogCheckError e)], status = Continue,
           elapsed = ptime p\<rparr>
      | None \<Rightarrow>
          (if available p then
             (case sendEmailNotification config (smtp w) of
                (evs, Some e, t) \<Rightarrow>
                  \<lparr>events = map Log (plog p) @ [Log LogFoundSending] @ evs @ [Log (LogMailError e)],
                   status = Continue, elapsed = ptime p + t\<rparr>
              | (evs, None, t) \<Rightarrow>
                  \<lparr>events = map Log (plog p) @ [Log LogFoundSending] @ evs @ [Log LogSentContinuing],
                   status = Continue, elapsed = ptime p + t\<rparr>)
           else \<lparr>events = map Log (plog p), status = Continue, elapsed = ptime p\<rparr>))"

subsection \<open>The global browser of auto\<close>

text \<open>
  The package variables \<open>browserAllocCtx\<close> and \<open>browserCancel\<close> (\<open>None\<close> is \<open>nil\<close>),
  with the allocator contexts that have been created and not cancelled (\<open>live\<close>) and
  the name of the next one (\<open>fresh\<close>).  The mutex is held for the whole of
  \<open>initBrowser\<close>; the model is sequential.
\<close>

record globals =
  browserAllocCtx :: "nat option"
  browserCancel :: "nat option"
  live :: "nat set"
  fresh :: nat

definition globals0 :: globals where
  "globals0 = \<lparr>browserAllocCtx = None, browserCancel = None, live = {}, fresh = 0\<rparr>"

text \<open>The first half of \<open>initBrowser\<close>: \<open>browserCancel()\<close> when it is not \<open>nil\<close>.\<close>

definition initBrowser_close :: "globals \<Rightarrow> globals" where
  "initBrowser_close g =
     (case browserCancel g of None \<Rightarrow> g | Some c \<Rightarrow> g\<lparr>live := live g - {c}\<rparr>)"

text \<open>The second half: \<open>NewExecAllocator\<close>, assigned to the two variables.\<close>

definition initBrowser_open :: "globals \<Rightarrow> globals" where
  "initBrowser_open g =
     g\<lparr>browserAllocCtx := Some (fresh g), browserCancel := Some (fresh g),
       live := insert (fresh g) (live g), fresh := Suc (fresh g)\<rparr>"

definition initBrowser :: "globals \<Rightarrow> globals" where
  "initBrowser g = initBrowser_open (initBrowser_close g)"

text \<open>
  \<open>checkTicketAvailability\<close> of auto derives its context from \<open>browserAllocCtx\<close>:
  \<open>NewContext\<close> panics on a \<open>nil\<close> parent (\<open>None\<close> below).  Under a cancelled parent the
  start of the browser fails at once: with its own error when the start fails before
  anything is started (an executable that cannot be found, which \<open>exec\<close> reports before
  it looks at the context; a start that fails after no time below), and with
  \<open>context canceled\<close> otherwise.  That error is classified as every other one.  The
  variables are read, never written.
\<close>

definition cancelled_error :: "browser \<Rightarrow> string" where
  "cancelled_error b =
     (case respond b Allocate of
        Completes d (Some e) \<Rightarrow> (if d = 0 then e else ''context canceled'')
      | _ \<Rightarrow> ''context canceled'')"

definition checkTicketAvailability_auto :: "globals \<Rightarrow> browser \<Rightarrow> string \<Rightarrow> probe option" where
  "checkTicketAvailability_auto g b url =
     (case browserAllocCtx g of
        None \<Rightarrow> None
      | Some a \<Rightarrow>
          (if a \<in> live g then Some (check_texts b url)
           else (let e = cancelled_error b in
                 if Contains e deadlineExceeded
                 then Some \<lparr>available = False, err = None,
                            plog = [LogChecking url, LogListNotFound], ptime = 0\<rparr>
                 else Some \<lparr>available = False, err = Some e,
                            plog = [LogChecking url, LogChromeError e], ptime = 0\<rparr>)))"

subsection \<open>autoFillAndWaitForCaptcha and runCheck of auto\<close>

definition chromePaths :: "string list" where
  "chromePaths =
     [''C:'' @ [CHR 0x5C] @ ''Program Files (x86)'' @ [CHR 0x5C] @ ''Google'' @ [CHR 0x5C]
        @ ''Chrome'' @ [CHR 0x5C] @ ''Application'' @ [CHR 0x5C] @ ''chrome.exe'',
      ''C:'' @ [CHR 0x5C] @ ''Program Files'' @ [CHR 0x5C] @ ''Google'' @ [CHR 0x5C]
        @ ''Chrome'' @ [CHR 0x5C] @ ''Application'' @ [CHR 0x5C] @ ''chrome.exe'']"

fun first_existing :: "(string \<Rightarrow> bool) \<Rightarrow> string list \<Rightarrow> string" where
  "first_existing ex [] = []"
| "first_existing ex (path # paths) = (if ex path then path else first_existing ex paths)"

text \<open>
  The script of \<open>EvaluateSelect\<close>: when the page has a price selector it sets the first
  one to one ticket and returns \<open>true\<close>; when it has none it does nothing and returns
  \<open>false\<close>.  This is the value of the script.
\<close>

definition select_script :: "browser \<Rightarrow> bool" where
  "select_script b = (0 < price_selects b)"

text \<open>
  The scripted steps.  \<open>Evaluate\<close> is given \<open>nil\<close> for the result of the select script,
  so the value of \<open>select_script\<close> is dropped and only an error of the evaluation
  itself stops the steps.
\<close>

definition fill_actions :: "string \<Rightarrow> action list" where
  "fill_actions ticketURL =
     [Navigate ticketURL,
      WaitVisible ''#ticketPriceList'',
      Sleep (500 * Millisecond),
      EvaluateSelect,
      Sleep (300 * Millisecond),
      Click ''#TicketForm_agree'',
      Sleep (300 * Millisecond),
      Focus ''#TicketForm_verifyCode'']"

text \<open>
  The result of the auto-fill, with its times counted from the creation of its
  context: when the scripted steps ended (\<open>af_steps_done\<close>), when the function
  returned (\<open>af_return\<close>) and when the visible browser was closed (\<open>af_closed\<close>).

  The browser is started by the first \<open>Run\<close> under the context that \<open>Run\<close> is given,
  the one made by \<open>context.WithTimeout(ctx, 3*time.Minute)\<close>.  It lives until that
  context is done: at its deadline, three minutes after its creation, or when the
  deferred \<open>cancel\<close> runs at the return, whichever comes first.
\<close>

record autofill =
  af_err :: "string option"
  af_events :: "event list"
  af_steps_done :: nat
  af_return :: nat
  af_closed :: nat

definition autoFillAndWaitForCaptcha :: "world \<Rightarrow> string \<Rightarrow> autofill" where
  "autoFillAndWaitForCaptcha w ticketURL =
     (let chromePath = first_existing (file_exists w) chromePaths;
          opening = [Log LogOpeningBrowser]
                    @ (if chromePath \<noteq> [] then [Log (LogUsingChrome chromePath)] else [])
                    @ [Log LogNavigating,
                       VisibleBrowser (if chromePath \<noteq> [] then Some chromePath else None)] in
      case Run (visible w) (3 * Minute) (fill_actions ticketURL) of
        (t, Some e) \<Rightarrow>
          \<lparr>af_err = Some e, af_events = opening @ [Log (LogFillError e)],
           af_steps_done = t, af_return = t, af_closed = min (3 * Minute) t\<rparr>
      | (t, None) \<Rightarrow>
          \<lparr>af_err = None, af_events = opening @ [Log LogFillSummary],
           af_steps_done = t, af_return = t + 3 * Minute,
           af_closed = min (3 * Minute) (t + 3 * Minute)\<rparr>)"

definition runCheck_auto :: "globals \<Rightarrow> Config_auto \<Rightarrow> world \<Rightarrow> cycle \<times> globals" where
  "runCheck_auto g config w =
     (case checkTicketAvailability_auto g (page w) (TargetURL config) of
        None \<Rightarrow> (\<lparr>events = [Log (LogChecking (TargetURL config))], status = Panic, elapsed = 0\<rparr>, g)
      | Some p \<Rightarrow>
          (case err p of
             Some e \<Rightarrow>
               (\<lparr>events = map Log (plog p) @ [Log (LogCheckError e)], status = Continue,
                 elapsed = ptime p\<rparr>, g)
           | None \<Rightarrow>
               (if available p then
                  (let a = autoFillAndWaitForCaptcha w (TargetURL config) in
                   (\<lparr>events = map Log (plog p) @ [Log LogLaunchingAutoFill] @ af_events a
                        @ (case af_err a of
                             Some e \<Rightarrow> [Log (LogAutoFillFailed e),
                                        Log (LogGoManually (TargetURL config))]
                           | None \<Rightarrow> [Log LogAutoFillDone])
                        @ [Log LogKeepRunningHint],
                     status = Continue, elapsed = ptime p + af_return a\<rparr>, g))
                else (\<lparr>events = map Log (plog p), status = Continue, elapsed = ptime p\<rparr>, g))))"

subsection \<open>The scheduling loop of main\<close>

text \<open>
  \<open>time.NewTicker p\<close>, created at time 0, ticks at \<open>p\<close>, \<open>2 * p\<close>, ...; its channel holds
  one tick, and a tick that finds the channel full is dropped.  A receive that is
  asked at time \<open>now\<close>, when the receive before it (or the creation of the ticker)
  was at \<open>r\<close>, returns at once if a tick fell in between, and at the next tick
  otherwise.
\<close>

definition ticker_recv :: "nat \<Rightarrow> nat \<Rightarrow> nat \<Rightarrow> nat" where
  "ticker_recv p r now = (if r div p < now div p then now else (now div p + 1) * p)"

text \<open>One call of \<open>runCheck\<close> in the loop: when it started, when it returned, what it did.\<close>

record slot =
  started :: nat
  finished :: nat
  did :: cycle

text \<open>
  \<open>for range ticker.C { runCheck(config) }\<close>.  The loop has no exit of its own, so the
  model counts the iterations it follows (\<open>fuel\<close>); it stops earlier when a cycle ends
  the process.  \<open>run g i\<close> is the \<open>i\<close>-th call of \<open>runCheck\<close> under the package
  variables \<open>g\<close>.
\<close>

fun ticker_loop ::
  "nat \<Rightarrow> nat \<Rightarrow> ('g \<Rightarrow> nat \<Rightarrow> cycle \<times> 'g) \<Rightarrow> 'g \<Rightarrow> nat \<Rightarrow> nat \<Rightarrow> nat \<Rightarrow> slot list" where
  "ticker_loop 0 p run g i r now = []"
| "ticker_loop (Suc fuel) p run g i r now =
     (let s = ticker_recv p r now in
      case run g i of
        (c, g') \<Rightarrow>
          \<lparr>started = s, finished = s + elapsed c, did = c\<rparr>
          # (if status c = Continue
             then ticker_loop fuel p run g' (Suc i) s (s + elapsed c) else []))"

text \<open>
  The ticker is created, \<open>runCheck\<close> is called at once, and the loop follows.
\<close>

definition schedule ::
  "nat \<Rightarrow> nat \<Rightarrow> ('g \<Rightarrow> nat \<Rightarrow> cycle \<times> 'g) \<Rightarrow> 'g \<Rightarrow> slot list" where
  "schedule fuel p run g =
     (case run g 0 of
        (c, g') \<Rightarrow>
          \<lparr>started = 0, finished = elapsed c, did = c\<rparr>
          # (if status c = Continue
             then ticker_loop fuel p run g' 1 0 (elapsed c) else []))"

text \<open>
  The three \<open>main\<close> functions: the environment (after \<open>godotenv.Load\<close>), the world of
  each cycle, and the number of loop iterations to follow.
\<close>

definition main_btn ::
  "(string \<rightharpoonup> string) \<Rightarrow> (nat \<Rightarrow> world) \<Rightarrow> nat \<Rightarrow> Config startup \<times> slot list" where
  "main_btn env ws fuel =
     (case main_startup (loadConfig env) of
        Scheduling config \<Rightarrow>
          (Scheduling config,
           schedule fuel (nat (sint (CheckInterval config)))
             (\<lambda>g i. (runCheck_btn config (ws i), g)) ())
      | stopped \<Rightarrow> (stopped, []))"

definition main_mail ::
  "(string \<rightharpoonup> string) \<Rightarrow> (nat \<Rightarrow> world) \<Rightarrow> nat \<Rightarrow> Config startup \<times> slot list" where
  "main_mail env ws fuel =
     (case main_startup (loadConfig env) of
        Scheduling config \<Rightarrow>
          (Scheduling config,
           schedule fuel (nat (sint (CheckInterval config)))
             (\<lambda>g i. (runCheck_mail config (ws i), g)) ())
      | stopped \<Rightarrow> (stopped, []))"

text \<open>
  In auto, \<open>initBrowser\<close> runs between the configuration and the ticker, so a
  non-positive interval panics after the allocator was made.
\<close>

definition main_auto ::
  "(string \<rightharpoonup> string) \<Rightarrow> (nat \<Rightarrow> world) \<Rightarrow> nat \<Rightarrow> Config_auto startup \<times> slot list" where
  "main_auto env ws fuel =
     (case main_startup (loadConfig_auto env) of
        Scheduling config \<Rightarrow>
          (Scheduling config,
           schedule fuel (nat (sint (CheckInterval config)))
             (\<lambda>g i. runCheck_auto g config (ws i)) (initBrowser globals0))
      | stopped \<Rightarrow> (stopped, []))"

section \<open>Notions of the specification and concrete inputs\<close>

text \<open>
  A text holds a keyword when a member of the keyword set occurs in it: the text is
  some bytes, the keyword, and some more bytes.
\<close>

definition holds_keyword :: "string \<Rightarrow> bool" where
  "holds_keyword text = (\<exists>k\<in>ticket_keywords. \<exists>p q. text = p @ k @ q)"

text \<open>An error message mentions the deadline when the text of
  \<open>context.DeadlineExceeded\<close> occurs in it.\<close>

definition mentions_deadline :: "string \<Rightarrow> bool" where
  "mentions_deadline e = (\<exists>p q. e = p @ deadlineExceeded @ q)"

text \<open>
  An action outlasts the time that is left when it never finishes, or finishes no
  earlier than the deadline.
\<close>

definition outlasts :: "nat \<Rightarrow> behaviour \<Rightarrow> bool" where
  "outlasts left beh = (case beh of Hangs \<Rightarrow> True | Completes d r \<Rightarrow> left \<le> d)"

text \<open>The events that are a \<open>DialAndSend\<close>.\<close>

definition is_mail :: "event \<Rightarrow> bool" where
  "is_mail ev = (case ev of SendMail d m \<Rightarrow> True | _ \<Rightarrow> False)"

text \<open>The time the \<open>Sleep\<close> actions of a list take together.\<close>

fun sleeps :: "action list \<Rightarrow> nat" where
  "sleeps [] = 0"
| "sleeps (Sleep d # as) = d + sleeps as"
| "sleeps (a # as) = sleeps as"

text \<open>
  A list of slots is the run of the cycles \<open>cyc i\<close>, \<open>cyc (i + 1)\<close>, ... from time \<open>s\<close>
  on when its first slot starts at \<open>s\<close>, each slot is the cycle of its number and ends
  when that cycle has taken its time, a slot is followed by another only when its
  cycle returned, and the next slot starts where the ticker lets the loop go on.
\<close>

fun in_sequence :: "nat \<Rightarrow> (nat \<Rightarrow> cycle) \<Rightarrow> nat \<Rightarrow> nat \<Rightarrow> slot list \<Rightarrow> bool" where
  "in_sequence p cyc i s [] = True"
| "in_sequence p cyc i s (x # xs) =
     (started x = s \<and> did x = cyc i \<and> finished x = s + elapsed (cyc i)
      \<and> (xs \<noteq> [] \<longrightarrow> status (cyc i) = Continue)
      \<and> in_sequence p cyc (Suc i) (ticker_recv p s (s + elapsed (cyc i))) xs)"

text \<open>
  The text "remaining 5" of the scenario (keyword, space, 5, space, U+5F35), and a
  page where every action takes one second and succeeds; its first ticket area is
  sold out and its second has two areas on sale.
\<close>

definition remaining_5 :: string where
  "remaining_5 = kw_remaining @ '' 5 '' @ [CHR 0xE5, CHR 0xBC, CHR 0xB5]"

definition page_tickets :: browser where
  "page_tickets =
     \<lparr>respond = (\<lambda>a. Completes Second None),
      groups = (\<lambda>i. if i = 0 then Some [''Sold Out'']
                     else if i = 1 then Some [remaining_5, kw_hot] else None),
      price_selects = 1\<rparr>"

text \<open>
  Pages for the failures of a probe: a navigation that never ends, a host name that
  does not resolve, a marker that never shows, a form without a price selector (every
  action succeeds), and a script whose exception text happens to quote the deadline
  message.
\<close>

definition page_nav_hangs :: browser where
  "page_nav_hangs =
     \<lparr>respond = (\<lambda>a. case a of Navigate u \<Rightarrow> Hangs | _ \<Rightarrow> Completes Second None),
      groups = (\<lambda>i. None), price_selects = 1\<rparr>"

definition page_unresolved :: browser where
  "page_unresolved =
     \<lparr>respond = (\<lambda>a. case a of Navigate u \<Rightarrow> Completes Second (Some ''net::ERR_NAME_NOT_RESOLVED'')
                             | _ \<Rightarrow> Completes Second None),
      groups = (\<lambda>i. None), price_selects = 1\<rparr>"

definition page_no_marker :: browser where
  "page_no_marker =
     \<lparr>respond = (\<lambda>a. case a of WaitVisible sel \<Rightarrow> Hangs | _ \<Rightarrow> Completes Second None),
      groups = (\<lambda>i. None), price_selects = 1\<rparr>"

definition page_no_selector :: browser where
  "page_no_selector =
     \<lparr>respond = (\<lambda>a. Completes Second None), groups = (\<lambda>i. None), price_selects = 0\<rparr>"

definition page_script_fault :: browser where
  "page_script_fault =
     \<lparr>respond = (\<lambda>a. case a of
                        EvaluateTexts \<Rightarrow>
                          Completes Second (Some ''exception: upstream said context deadline exceeded'')
                      | _ \<Rightarrow> Completes Second None),
      groups = (\<lambda>i. None), price_selects = 1\<rparr>"

text \<open>Configurations and worlds for the examples.\<close>

definition config_example :: Config where
  "config_example =
     \<lparr>TargetURL = ''http://t'', CheckInterval = 60000000000,
      RecipientEmail = ''you@example.com'', SenderEmail = ''sender@gmail.com'',
      SenderPassword = ''abcdefgh'', SmtpHost = ''smtp.gmail.com'', SmtpPort = 587\<rparr>"

definition config_auto_example :: Config_auto where
  "config_auto_example = \<lparr>TargetURL = ''http://t'', CheckInterval = 60000000000\<rparr>"

definition world_unresolved :: world where
  "world_unresolved =
     \<lparr>page = page_unresolved, smtp = (\<lambda>d m. (Second, None)), visible = page_tickets,
      file_exists = (\<lambda>path. False)\<rparr>"

definition world_no_marker :: world where
  "world_no_marker =
     \<lparr>page = page_no_marker, smtp = (\<lambda>d m. (Second, None)), visible = page_tickets,
      file_exists = (\<lambda>path. False)\<rparr>"

definition world_button :: world where
  "world_button =
     \<lparr>page = page_tickets, smtp = (\<lambda>d m. (Second, None)), visible = page_tickets,
      file_exists = (\<lambda>path. False)\<rparr>"

definition world_smtp_down :: world where
  "world_smtp_down =
     \<lparr>page = page_tickets, smtp = (\<lambda>d m. (Second, Some ''dial tcp: connection refused'')),
      visible = page_tickets, file_exists = (\<lambda>path. False)\<rparr>"

definition world_no_selector :: world where
  "world_no_selector =
     \<lparr>page = page_tickets, smtp = (\<lambda>d m. (Second, None)), visible = page_no_selector,
      file_exists = (\<lambda>path. False)\<rparr>"

definition world_no_form :: world where
  "world_no_form =
     \<lparr>page = page_tickets, smtp = (\<lambda>d m. (Second, None)), visible = page_no_marker,
      file_exists = (\<lambda>path. False)\<rparr>"

text \<open>
  An environment with every required variable set and neither the port nor the
  interval given.
\<close>

definition env_example :: "string \<rightharpoonup> string" where
  "env_example =
     [''TARGET_URL'' \<mapsto> ''http://t'',
      ''RECIPIENT_EMAIL'' \<mapsto> ''you@example.com'',
      ''SENDER_EMAIL'' \<mapsto> ''sender@gmail.com'',
      ''SENDER_PASSWORD'' \<mapsto> ''abcd efgh'',
      ''SMTP_HOST'' \<mapsto> ''smtp.gmail.com'']"

text \<open>
  Variants of the environment: an interval of zero seconds, an interval whose
  product with \<open>10^9\<close> wraps to 512 nanoseconds, and no target URL.
\<close>

definition env_zero :: "string \<rightharpoonup> string" where
  "env_zero = env_example(''CHECK_INTERVAL_SECONDS'' \<mapsto> ''0'')"

definition env_wrapping :: "string \<rightharpoonup> string" where
  "env_wrapping = env_example(''CHECK_INTERVAL_SECONDS'' \<mapsto> ''20211507185753197'')"

definition env_no_url :: "string \<rightharpoonup> string" where
  "env_no_url = env_example(''TARGET_URL'' := None)"

section \<open>Properties\<close>

subsection \<open>Substrings and the scan of the texts\<close>

lemma HasPrefix_iff: "HasPrefix s p \<longleftrightarrow> (\<exists>q. s = p @ q)"
  by (induction s p rule: HasPrefix.induct) auto

lemma Contains_iff: "Contains s sub \<longleftrightarrow> (\<exists>p q. s = p @ sub @ q)"
proof (induction s)
  case Nil
  then show ?case by simp
next
  case (Cons c cs)
  show ?case
  proof
    assume "Contains (c # cs) sub"
    then consider "HasPrefix (c # cs) sub" | "Contains cs sub" by auto
    then show "\<exists>p q. c # cs = p @ sub @ q"
    proof cases
      case 1
      then obtain q where "c # cs = sub @ q" by (auto simp: HasPrefix_iff)
      then have "c # cs = [] @ sub @ q" by simp
      then show ?thesis by blast
    next
      case 2
      then obtain p q where "cs = p @ sub @ q" using Cons.IH by auto
      then have "c # cs = (c # p) @ sub @ q" by simp
      then show ?thesis by blast
    qed
  next
    assume "\<exists>p q. c # cs = p @ sub @ q"
    then obtain p q where pq: "c # cs = p @ sub @ q" by auto
    show "Contains (c # cs) sub"
    proof (cases p)
      case Nil
      with pq have "HasPrefix (c # cs) sub" by (auto simp: HasPrefix_iff)
      then show ?thesis by simp
    next
      case (Cons a p')
      with pq have "cs = p' @ sub @ q" by simp
      then have "Contains cs sub" using Cons.IH by blast
      then show ?thesis by simp
    qed
  qed
qed

lemma holds_keyword_code:
  "holds_keyword text \<longleftrightarrow> Contains text kw_remaining \<or> Contains text kw_hot"
  by (simp add: holds_keyword_def ticket_keywords_def Contains_iff)

lemma scan_texts_None: "scan_texts T = None \<longleftrightarrow> (\<forall>text\<in>set T. \<not> holds_keyword text)"
  by (induction T) (auto simp: holds_keyword_code)

lemma scan_texts_first:
  "\<forall>u\<in>set pre. \<not> holds_keyword u \<Longrightarrow> holds_keyword text \<Longrightarrow>
   scan_texts (pre @ text # post) = Some text"
  by (induction pre) (auto simp: holds_keyword_code)

lemma scan_texts_Some:
  "scan_texts T = Some text \<Longrightarrow>
   \<exists>pre post. T = pre @ text # post \<and> (\<forall>u\<in>set pre. \<not> holds_keyword u) \<and> holds_keyword text"
proof (induction T)
  case Nil
  then show ?case by simp
next
  case (Cons a T)
  show ?case
  proof (cases "holds_keyword a")
    case True
    with Cons.prems have "a = text" by (simp add: holds_keyword_code)
    with True have "a # T = [] @ text # T \<and> (\<forall>u\<in>set []. \<not> holds_keyword u) \<and> holds_keyword text"
      by simp
    then show ?thesis by blast
  next
    case False
    with Cons.prems have "scan_texts T = Some text" by (simp add: holds_keyword_code)
    then obtain pre post where
      "T = pre @ text # post" "\<forall>u\<in>set pre. \<not> holds_keyword u" "holds_keyword text"
      using Cons.IH by blast
    with False have "a # T = (a # pre) @ text # post \<and> (\<forall>u\<in>set (a # pre). \<not> holds_keyword u)
        \<and> holds_keyword text" by simp
    then show ?thesis by blast
  qed
qed

lemma check_texts_found:
  assumes "Run b (30 * Second) [Navigate url, WaitVisible ''#group_0'', EvaluateTexts] = (t, None)"
  shows "check_texts b url =
     (case scan_texts (extract_texts b) of
        Some text \<Rightarrow> \<lparr>available = True, err = None,
                      plog = [LogChecking url, LogFoundArea text], ptime = t\<rparr>
      | None \<Rightarrow> \<lparr>available = False, err = None,
                  plog = [LogChecking url, LogAllSoldOut (length (extract_texts b))], ptime = t\<rparr>)"
  using assms by (simp add: check_texts_def Let_def)

subsection \<open>C1: the scan returns the first text that holds a keyword\<close>

text \<open>
  Claim C1.  When the marker was found and the texts \<open>T\<close> were extracted, the probe of
  mail (and of auto, which runs the same check under a live global allocator) has no
  error and reports tickets exactly when some element of \<open>T\<close> holds a keyword of the
  keyword set of the code.  It scans \<open>T\<close> in order: for the first element that holds a
  keyword, whatever follows it, the probe returns \<open>true\<close> and names that text in its
  log line; when no element holds one, it returns \<open>false\<close> after the whole of \<open>T\<close>,
  logging the number of texts.
\<close>

theorem probe_first_match:
  assumes run: "Run b (30 * Second) [Navigate url, WaitVisible ''#group_0'', EvaluateTexts] = (t, None)"
    and texts: "extract_texts b = T"
    and g: "browserAllocCtx g = Some a" "a \<in> live g"
  shows "checkTicketAvailability_auto g b url = Some (checkTicketAvailability_mail b url)
    \<and> err (checkTicketAvailability_mail b url) = None
    \<and> (available (checkTicketAvailability_mail b url) \<longleftrightarrow> (\<exists>text\<in>set T. holds_keyword text))
    \<and> (\<forall>pre text post.
          T = pre @ text # post \<and> (\<forall>u\<in>set pre. \<not> holds_keyword u) \<and> holds_keyword text \<longrightarrow>
          available (checkTicketAvailability_mail b url)
          \<and> plog (checkTicketAvailability_mail b url) = [LogChecking url, LogFoundArea text])
    \<and> ((\<forall>text\<in>set T. \<not> holds_keyword text) \<longrightarrow>
          \<not> available (checkTicketAvailability_mail b url)
          \<and> plog (checkTicketAvailability_mail b url) = [LogChecking url, LogAllSoldOut (length T)])"
proof -
  let ?p = "checkTicketAvailability_mail b url"
  have p: "?p = (case scan_texts T of
        Some text \<Rightarrow> \<lparr>available = True, err = None,
                      plog = [LogChecking url, LogFoundArea text], ptime = t\<rparr>
      | None \<Rightarrow> \<lparr>available = False, err = None,
                  plog = [LogChecking url, LogAllSoldOut (length T)], ptime = t\<rparr>)"
    unfolding texts [symmetric] checkTicketAvailability_mail_def
    by (rule check_texts_found [OF run])
  have 1: "checkTicketAvailability_auto g b url = Some ?p"
    using g by (simp add: checkTicketAvailability_auto_def checkTicketAvailability_mail_def)
  have 2: "err ?p = None" by (simp add: p split: option.split)
  have 3: "available ?p \<longleftrightarrow> (\<exists>text\<in>set T. holds_keyword text)"
  proof (cases "scan_texts T")
    case None
    then show ?thesis using scan_texts_None [of T] by (simp add: p)
  next
    case (Some found)
    then have "scan_texts T \<noteq> None" by simp
    then have "\<exists>text\<in>set T. holds_keyword text" using scan_texts_None [of T] by auto
    with Some show ?thesis by (simp add: p)
  qed
  have 4: "available ?p \<and> plog ?p = [LogChecking url, LogFoundArea tx]"
    if "T = pre @ tx # post" "\<forall>u\<in>set pre. \<not> holds_keyword u" "holds_keyword tx"
    for pre tx post
    using scan_texts_first [of pre tx post] that by (simp add: p)
  have 5: "\<not> available ?p \<and> plog ?p = [LogChecking url, LogAllSoldOut (length T)]"
    if "\<forall>text\<in>set T. \<not> holds_keyword text"
    using that scan_texts_None [of T] by (simp add: p)
  from 1 2 3 4 5 show ?thesis by blast
qed

lemma page_tickets_run:
  "Run page_tickets (30 * Second) [Navigate url, WaitVisible ''#group_0'', EvaluateTexts]
     = (4 * Second, None)"
  by (simp add: Run_def page_tickets_def behaviour_of_def Second_def)

lemma page_tickets_texts:
  "extract_texts page_tickets = [''Sold Out'', remaining_5, kw_hot]"
  by (simp add: extract_texts_def page_tickets_def upt_rec)

text \<open>
  The scenario of the specification: a sold-out text followed by a text with the
  keyword "remaining"; the second is the one reported.
\<close>

theorem probe_first_match_witness:
  "available (checkTicketAvailability_mail page_tickets ''http://t'')
   \<and> plog (checkTicketAvailability_mail page_tickets ''http://t'')
       = [LogChecking ''http://t'', LogFoundArea remaining_5]
   \<and> checkTicketAvailability_auto (initBrowser globals0) page_tickets ''http://t''
       = Some (checkTicketAvailability_mail page_tickets ''http://t'')"
proof -
  have g: "browserAllocCtx (initBrowser globals0) = Some 0" "0 \<in> live (initBrowser globals0)"
    by (simp_all add: initBrowser_def initBrowser_open_def initBrowser_close_def globals0_def)
  have a: "\<not> holds_keyword ''Sold Out''"
    by (simp add: holds_keyword_code kw_remaining_def kw_hot_def)
  have b: "holds_keyword remaining_5"
    by (simp add: holds_keyword_code remaining_5_def kw_remaining_def kw_hot_def)
  have T: "[''Sold Out'', remaining_5, kw_hot] = [''Sold Out''] @ remaining_5 # [kw_hot]"
    by simp
  from probe_first_match [OF page_tickets_run page_tickets_texts g, of "''http://t''"] a b T
  show ?thesis by (metis (no_types, lifting) empty_iff empty_set set_ConsD)
qed

subsection \<open>The loop after its first cycle\<close>

lemma schedule_stops:
  "status (fst (run g 0)) \<noteq> Continue \<Longrightarrow> length (schedule fuel p run g) = 1"
  by (cases "run g 0") (simp add: schedule_def)

lemma schedule_goes_on:
  "status (fst (run g 0)) = Continue \<Longrightarrow> 2 \<le> length (schedule (Suc fuel) p run g)"
proof -
  assume c: "status (fst (run g 0)) = Continue"
  obtain c0 g' where r: "run g 0 = (c0, g')" by (cases "run g 0")
  obtain c1 g'' where r1: "run g' (Suc 0) = (c1, g'')" by (cases "run g' (Suc 0)")
  from c show ?thesis by (simp add: schedule_def r r1 Let_def)
qed

subsection \<open>How a failed run is classified\<close>

lemma mentions_deadline_code: "mentions_deadline e \<longleftrightarrow> Contains e deadlineExceeded"
  by (simp add: mentions_deadline_def Contains_iff)

lemma Contains_deadline_self: "Contains deadlineExceeded deadlineExceeded"
proof -
  have "deadlineExceeded = [] @ deadlineExceeded @ []" by simp
  then show ?thesis unfolding Contains_iff by blast
qed

lemma perform_outlasts:
  "outlasts left beh \<Longrightarrow> perform left beh = (left, Some deadlineExceeded)"
  by (cases beh) (auto simp: outlasts_def)

lemma btn_failed:
  assumes "Run b (30 * Second) [Navigate url, WaitVisible ''.nextBtn''] = (t, Some e)"
  shows "checkTicketAvailability_btn b url =
     (if mentions_deadline e
      then \<lparr>available = False, err = None,
            plog = [LogChecking url, LogButtonNotFound], ptime = t\<rparr>
      else \<lparr>available = False, err = Some e,
            plog = [LogChecking url, LogChromeError e], ptime = t\<rparr>)"
  using assms by (simp add: checkTicketAvailability_btn_def mentions_deadline_code)

lemma texts_failed:
  assumes "Run b (30 * Second) [Navigate url, WaitVisible ''#group_0'', EvaluateTexts] = (t, Some e)"
  shows "check_texts b url =
     (if mentions_deadline e
      then \<lparr>available = False, err = None,
            plog = [LogChecking url, LogListNotFound], ptime = t\<rparr>
      else \<lparr>available = False, err = Some e,
            plog = [LogChecking url, LogChromeError e], ptime = t\<rparr>)"
  using assms by (simp add: check_texts_def mentions_deadline_code)

lemma auto_live:
  "browserAllocCtx g = Some a \<Longrightarrow> a \<in> live g \<Longrightarrow>
   checkTicketAvailability_auto g b url = Some (check_texts b url)"
  by (simp add: checkTicketAvailability_auto_def)

lemma Run_wait_outlasts:
  assumes "respond b Allocate = Completes d0 None"
    and "respond b (Navigate url) = Completes d1 None"
    and "d0 + d1 < D"
    and "outlasts (D - (d0 + d1)) (respond b (WaitVisible sel))"
  shows "Run b D (Navigate url # WaitVisible sel # rest) = (D, Some deadlineExceeded)"
proof -
  have "perform (D - d0 - d1) (respond b (WaitVisible sel)) = (D - d0 - d1, Some deadlineExceeded)"
    using perform_outlasts [OF assms(4)] by simp
  with assms(1-3) show ?thesis
    by (simp add: Run_def behaviour_of_def)
qed

lemma Run_navigate_outlasts:
  assumes "respond b Allocate = Completes d0 None"
    and "d0 < D"
    and "outlasts (D - d0) (respond b (Navigate url))"
  shows "Run b D (Navigate url # rest) = (D, Some deadlineExceeded)"
  using assms perform_outlasts [OF assms(3)] by (simp add: Run_def behaviour_of_def)

lemma mentions_deadline_self: "mentions_deadline deadlineExceeded"
  by (simp add: mentions_deadline_code Contains_deadline_self)

subsection \<open>C2: a marker that does not show within the deadline\<close>

text \<open>
  Claim C2.  When the browser starts and the page loads within the 30 seconds, and the
  wait for the marker outlasts what is left of them, the probe of each program returns
  \<open>false\<close> with no error (and the log line of a marker that was not found), after
  exactly 30 seconds.
\<close>

theorem probe_wait_deadline:
  assumes "respond b Allocate = Completes d0 None"
    and "respond b (Navigate url) = Completes d1 None"
    and "d0 + d1 < 30 * Second"
    and "browserAllocCtx g = Some a" and "a \<in> live g"
  shows "(outlasts (30 * Second - (d0 + d1)) (respond b (WaitVisible ''.nextBtn'')) \<longrightarrow>
            checkTicketAvailability_btn b url =
              \<lparr>available = False, err = None,
               plog = [LogChecking url, LogButtonNotFound], ptime = 30 * Second\<rparr>)
       \<and> (outlasts (30 * Second - (d0 + d1)) (respond b (WaitVisible ''#group_0'')) \<longrightarrow>
            checkTicketAvailability_mail b url =
              \<lparr>available = False, err = None,
               plog = [LogChecking url, LogListNotFound], ptime = 30 * Second\<rparr>
            \<and> checkTicketAvailability_auto g b url =
              Some \<lparr>available = False, err = None,
                    plog = [LogChecking url, LogListNotFound], ptime = 30 * Second\<rparr>)"
proof (intro conjI impI)
  assume "outlasts (30 * Second - (d0 + d1)) (respond b (WaitVisible ''.nextBtn''))"
  from btn_failed [OF Run_wait_outlasts [OF assms(1-3) this]]
  show "checkTicketAvailability_btn b url =
     \<lparr>available = False, err = None,
      plog = [LogChecking url, LogButtonNotFound], ptime = 30 * Second\<rparr>"
    by (simp add: mentions_deadline_self)
next
  assume "outlasts (30 * Second - (d0 + d1)) (respond b (WaitVisible ''#group_0''))"
  from texts_failed [OF Run_wait_outlasts [OF assms(1-3) this]]
  have *: "check_texts b url =
     \<lparr>available = False, err = None,
      plog = [LogChecking url, LogListNotFound], ptime = 30 * Second\<rparr>"
    by (simp add: mentions_deadline_self)
  then show "checkTicketAvailability_mail b url =
     \<lparr>available = False, err = None,
      plog = [LogChecking url, LogListNotFound], ptime = 30 * Second\<rparr>"
    by (simp add: checkTicketAvailability_mail_def)
  from * show "checkTicketAvailability_auto g b url =
     Some \<lparr>available = False, err = None,
           plog = [LogChecking url, LogListNotFound], ptime = 30 * Second\<rparr>"
    by (simp add: auto_live [OF assms(4,5)])
qed

lemma initBrowser_globals0:
  "initBrowser globals0 = \<lparr>browserAllocCtx = Some 0, browserCancel = Some 0, live = {0}, fresh = 1\<rparr>"
  by (simp add: initBrowser_def initBrowser_open_def initBrowser_close_def globals0_def)

text \<open>A page whose marker never shows.\<close>

theorem probe_wait_deadline_witness:
  "checkTicketAvailability_btn page_no_marker ''http://t'' =
     \<lparr>available = False, err = None,
      plog = [LogChecking ''http://t'', LogButtonNotFound], ptime = 30 * Second\<rparr>
   \<and> checkTicketAvailability_mail page_no_marker ''http://t'' =
     \<lparr>available = False, err = None,
      plog = [LogChecking ''http://t'', LogListNotFound], ptime = 30 * Second\<rparr>
   \<and> checkTicketAvailability_auto (initBrowser globals0) page_no_marker ''http://t'' =
     Some \<lparr>available = False, err = None,
           plog = [LogChecking ''http://t'', LogListNotFound], ptime = 30 * Second\<rparr>"
proof -
  have 1: "respond page_no_marker Allocate = Completes Second None"
    and 2: "respond page_no_marker (Navigate ''http://t'') = Completes Second None"
    and 3: "Second + Second < 30 * Second"
    and 4: "browserAllocCtx (initBrowser globals0) = Some 0"
    and 5: "0 \<in> live (initBrowser globals0)"
    and 6: "outlasts (30 * Second - (Second + Second)) (respond page_no_marker (WaitVisible ''.nextBtn''))"
    and 7: "outlasts (30 * Second - (Second + Second)) (respond page_no_marker (WaitVisible ''#group_0''))"
    by (simp_all add: page_no_marker_def Second_def initBrowser_globals0 outlasts_def)
  from probe_wait_deadline [OF 1 2 3 4 5] 6 7 show ?thesis by blast
qed

subsection \<open>C10: the classification reads the text of the error\<close>

text \<open>
  Claim C10.  Whatever action of the run failed, the probe of each program returns
  \<open>false\<close>, and its error is \<open>nil\<close> exactly when the message of the failure mentions
  \<open>context deadline exceeded\<close>; otherwise the error is handed on.  In particular a
  navigation that uses up the deadline gives \<open>false\<close> and no error.
\<close>

theorem probe_classifies_by_message:
  assumes "browserAllocCtx g = Some a" and "a \<in> live g"
  shows "(Run b (30 * Second) [Navigate url, WaitVisible ''.nextBtn''] = (t, Some e) \<longrightarrow>
            \<not> available (checkTicketAvailability_btn b url)
            \<and> err (checkTicketAvailability_btn b url) = (if mentions_deadline e then None else Some e))
       \<and> (Run b (30 * Second) [Navigate url, WaitVisible ''#group_0'', EvaluateTexts] = (t, Some e) \<longrightarrow>
            \<not> available (checkTicketAvailability_mail b url)
            \<and> err (checkTicketAvailability_mail b url) = (if mentions_deadline e then None else Some e)
            \<and> checkTicketAvailability_auto g b url = Some (checkTicketAvailability_mail b url))
       \<and> (respond b Allocate = Completes d0 None \<and> d0 < 30 * Second
            \<and> outlasts (30 * Second - d0) (respond b (Navigate url)) \<longrightarrow>
            \<not> available (checkTicketAvailability_btn b url)
            \<and> err (checkTicketAvailability_btn b url) = None
            \<and> \<not> available (checkTicketAvailability_mail b url)
            \<and> err (checkTicketAvailability_mail b url) = None)"
proof (intro conjI impI)
  assume r: "Run b (30 * Second) [Navigate url, WaitVisible ''.nextBtn''] = (t, Some e)"
  show "\<not> available (checkTicketAvailability_btn b url)"
    by (simp add: btn_failed [OF r])
  show "err (checkTicketAvailability_btn b url) = (if mentions_deadline e then None else Some e)"
    by (simp add: btn_failed [OF r])
next
  assume r: "Run b (30 * Second) [Navigate url, WaitVisible ''#group_0'', EvaluateTexts] = (t, Some e)"
  show "\<not> available (checkTicketAvailability_mail b url)"
    by (simp add: checkTicketAvailability_mail_def texts_failed [OF r])
  show "err (checkTicketAvailability_mail b url) = (if mentions_deadline e then None else Some e)"
    by (simp add: checkTicketAvailability_mail_def texts_failed [OF r])
  show "checkTicketAvailability_auto g b url = Some (checkTicketAvailability_mail b url)"
    by (simp add: checkTicketAvailability_mail_def auto_live [OF assms])
next
  assume n: "respond b Allocate = Completes d0 None \<and> d0 < 30 * Second
            \<and> outlasts (30 * Second - d0) (respond b (Navigate url))"
  then have n1: "respond b Allocate = Completes d0 None" and n2: "d0 < 30 * Second"
    and n3: "outlasts (30 * Second - d0) (respond b (Navigate url))" by simp_all
  note rb = btn_failed [OF Run_navigate_outlasts [OF n1 n2 n3]]
  note rt = texts_failed [OF Run_navigate_outlasts [OF n1 n2 n3]]
  show "\<not> available (checkTicketAvailability_btn b url)"
    by (simp add: rb)
  show "err (checkTicketAvailability_btn b url) = None"
    by (simp add: rb mentions_deadline_self)
  show "\<not> available (checkTicketAvailability_mail b url)"
    by (simp add: checkTicketAvailability_mail_def rt)
  show "err (checkTicketAvailability_mail b url) = None"
    by (simp add: checkTicketAvailability_mail_def rt mentions_deadline_self)
qed

lemma page_nav_hangs_run:
  "Run page_nav_hangs (30 * Second) (Navigate url # rest) = (30 * Second, Some deadlineExceeded)"
  by (simp add: Run_def page_nav_hangs_def behaviour_of_def Second_def)

lemma page_script_fault_run:
  "Run page_script_fault (30 * Second) [Navigate url, WaitVisible ''#group_0'', EvaluateTexts]
     = (4 * Second, Some ''exception: upstream said context deadline exceeded'')"
  by (simp add: Run_def page_script_fault_def behaviour_of_def Second_def)

lemma page_unresolved_run:
  "Run page_unresolved (30 * Second) (Navigate url # rest)
     = (2 * Second, Some ''net::ERR_NAME_NOT_RESOLVED'')"
  by (simp add: Run_def page_unresolved_def behaviour_of_def Second_def)

lemma unresolved_no_deadline: "\<not> mentions_deadline ''net::ERR_NAME_NOT_RESOLVED''"
  by (simp add: mentions_deadline_code deadlineExceeded_def)

lemma script_fault_mentions:
  "mentions_deadline ''exception: upstream said context deadline exceeded''"
  by (simp add: mentions_deadline_code deadlineExceeded_def)

text \<open>
  A navigation that never ends and a script fault that quotes the deadline message
  are both reported as "not available"; an unresolved host name is an error.
\<close>

theorem probe_classifies_by_message_witness:
  "err (checkTicketAvailability_btn page_nav_hangs ''http://t'') = None
   \<and> err (checkTicketAvailability_mail page_nav_hangs ''http://t'') = None
   \<and> err (checkTicketAvailability_mail page_script_fault ''http://t'') = None
   \<and> err (checkTicketAvailability_btn page_unresolved ''http://t'')
       = Some ''net::ERR_NAME_NOT_RESOLVED''
   \<and> checkTicketAvailability_auto (initBrowser globals0) page_unresolved ''http://t''
       = Some (checkTicketAvailability_mail page_unresolved ''http://t'')"
proof -
  have g: "browserAllocCtx (initBrowser globals0) = Some 0" "0 \<in> live (initBrowser globals0)"
    by (simp_all add: initBrowser_globals0)
  have h: "respond page_nav_hangs Allocate = Completes Second None \<and> Second < 30 * Second
      \<and> outlasts (30 * Second - Second) (respond page_nav_hangs (Navigate ''http://t''))"
    by (simp add: page_nav_hangs_def outlasts_def Second_def)
  from probe_classifies_by_message [OF g, of page_nav_hangs "''http://t''" _ _ Second] h
  have 1: "err (checkTicketAvailability_btn page_nav_hangs ''http://t'') = None
     \<and> err (checkTicketAvailability_mail page_nav_hangs ''http://t'') = None"
    by blast
  from probe_classifies_by_message [OF g, of page_script_fault "''http://t''" "4 * Second"
      "''exception: upstream said context deadline exceeded''"]
    page_script_fault_run script_fault_mentions
  have 2: "err (checkTicketAvailability_mail page_script_fault ''http://t'') = None"
    by simp
  from probe_classifies_by_message [OF g, of page_unresolved "''http://t''" "2 * Second"
      "''net::ERR_NAME_NOT_RESOLVED''"]
    page_unresolved_run unresolved_no_deadline
  have 3: "err (checkTicketAvailability_btn page_unresolved ''http://t'')
       = Some ''net::ERR_NAME_NOT_RESOLVED''
     \<and> checkTicketAvailability_auto (initBrowser globals0) page_unresolved ''http://t''
       = Some (checkTicketAvailability_mail page_unresolved ''http://t'')"
    by simp
  from 1 2 3 show ?thesis by blast
qed

subsection \<open>C3: an operational error ends the cycle\<close>

text \<open>
  Claim C3, as amended.  For every failure of the run whose message does not mention
  \<open>context deadline exceeded\<close>, the probe returns that error, and the cycle of each
  program consists of three log lines and nothing else: no mail is sent and no visible
  browser is started; \<open>runCheck\<close> returns, the loop runs the next cycle, and in auto
  the package variables of the browser are what they were.
\<close>

theorem probe_error_ends_cycle:
  assumes "\<not> mentions_deadline e"
    and "browserAllocCtx g = Some a" and "a \<in> live g"
  shows "(Run (page w) (30 * Second) [Navigate (TargetURL config), WaitVisible ''.nextBtn'']
            = (t, Some e) \<longrightarrow>
          err (checkTicketAvailability_btn (page w) (TargetURL config)) = Some e
          \<and> runCheck_btn config w =
              \<lparr>events = [Log (LogChecking (TargetURL config)), Log (LogChromeError e),
                         Log (LogCheckError e)],
               status = Continue, elapsed = t\<rparr>
          \<and> (\<forall>ws fuel p. ws 0 = w \<longrightarrow>
                2 \<le> length (schedule (Suc fuel) p (\<lambda>g i. (runCheck_btn config (ws i), g)) ())))
       \<and> (Run (page w) (30 * Second)
             [Navigate (TargetURL config), WaitVisible ''#group_0'', EvaluateTexts]
            = (t, Some e) \<longrightarrow>
          err (checkTicketAvailability_mail (page w) (TargetURL config)) = Some e
          \<and> runCheck_mail config w =
              \<lparr>events = [Log (LogChecking (TargetURL config)), Log (LogChromeError e),
                         Log (LogCheckError e)],
               status = Continue, elapsed = t\<rparr>
          \<and> (\<forall>ws fuel p. ws 0 = w \<longrightarrow>
                2 \<le> length (schedule (Suc fuel) p (\<lambda>g i. (runCheck_mail config (ws i), g)) ())))
       \<and> (Run (page w) (30 * Second)
             [Navigate (TargetURL ca), WaitVisible ''#group_0'', EvaluateTexts]
            = (t, Some e) \<longrightarrow>
          checkTicketAvailability_auto g (page w) (TargetURL ca)
            = Some \<lparr>available = False, err = Some e,
                    plog = [LogChecking (TargetURL ca), LogChromeError e], ptime = t\<rparr>
          \<and> runCheck_auto g ca w =
              (\<lparr>events = [Log (LogChecking (TargetURL ca)), Log (LogChromeError e),
                          Log (LogCheckError e)],
                status = Continue, elapsed = t\<rparr>, g)
          \<and> (\<forall>ws fuel p. ws 0 = w \<longrightarrow>
                2 \<le> length (schedule (Suc fuel) p (\<lambda>g i. runCheck_auto g ca (ws i)) g)))"
proof (intro conjI impI)
  assume r: "Run (page w) (30 * Second) [Navigate (TargetURL config), WaitVisible ''.nextBtn'']
            = (t, Some e)"
  note p = btn_failed [OF r]
  show "err (checkTicketAvailability_btn (page w) (TargetURL config)) = Some e"
    using assms(1) by (simp add: p)
  show rc: "runCheck_btn config w =
      \<lparr>events = [Log (LogChecking (TargetURL config)), Log (LogChromeError e),
                 Log (LogCheckError e)],
       status = Continue, elapsed = t\<rparr>"
    using assms(1) by (simp add: runCheck_btn_def p)
  show "\<forall>ws fuel p. ws 0 = w \<longrightarrow>
      2 \<le> length (schedule (Suc fuel) p (\<lambda>g i. (runCheck_btn config (ws i), g)) ())"
  proof (intro allI impI)
    fix ws :: "nat \<Rightarrow> world" and fuel q :: nat
    assume "ws 0 = w"
    with rc show "2 \<le> length (schedule (Suc fuel) q (\<lambda>g i. (runCheck_btn config (ws i), g)) ())"
      using schedule_goes_on [of "\<lambda>g i. (runCheck_btn config (ws i), g)" "()" fuel q] by simp
  qed
next
  assume r: "Run (page w) (30 * Second)
             [Navigate (TargetURL config), WaitVisible ''#group_0'', EvaluateTexts] = (t, Some e)"
  note p = texts_failed [OF r]
  show "err (checkTicketAvailability_mail (page w) (TargetURL config)) = Some e"
    using assms(1) by (simp add: checkTicketAvailability_mail_def p)
  show rc: "runCheck_mail config w =
      \<lparr>events = [Log (LogChecking (TargetURL config)), Log (LogChromeError e),
                 Log (LogCheckError e)],
       status = Continue, elapsed = t\<rparr>"
    using assms(1) by (simp add: runCheck_mail_def checkTicketAvailability_mail_def p)
  show "\<forall>ws fuel p. ws 0 = w \<longrightarrow>
      2 \<le> length (schedule (Suc fuel) p (\<lambda>g i. (runCheck_mail config (ws i), g)) ())"
  proof (intro allI impI)
    fix ws :: "nat \<Rightarrow> world" and fuel q :: nat
    assume "ws 0 = w"
    with rc show "2 \<le> length (schedule (Suc fuel) q (\<lambda>g i. (runCheck_mail config (ws i), g)) ())"
      using schedule_goes_on [of "\<lambda>g i. (runCheck_mail config (ws i), g)" "()" fuel q] by simp
  qed
next
  assume r: "Run (page w) (30 * Second)
             [Navigate (TargetURL ca), WaitVisible ''#group_0'', EvaluateTexts] = (t, Some e)"
  note p = texts_failed [OF r]
  show c: "checkTicketAvailability_auto g (page w) (TargetURL ca)
            = Some \<lparr>available = False, err = Some e,
                    plog = [LogChecking (TargetURL ca), LogChromeError e], ptime = t\<rparr>"
    using assms(1) by (simp add: auto_live [OF assms(2,3)] p)
  show rc: "runCheck_auto g ca w =
      (\<lparr>events = [Log (LogChecking (TargetURL ca)), Log (LogChromeError e),
                  Log (LogCheckError e)],
        status = Continue, elapsed = t\<rparr>, g)"
    by (simp add: runCheck_auto_def c)
  show "\<forall>ws fuel p. ws 0 = w \<longrightarrow>
      2 \<le> length (schedule (Suc fuel) p (\<lambda>g i. runCheck_auto g ca (ws i)) g)"
  proof (intro allI impI)
    fix ws :: "nat \<Rightarrow> world" and fuel q :: nat
    assume "ws 0 = w"
    with rc show "2 \<le> length (schedule (Suc fuel) q (\<lambda>g i. runCheck_auto g ca (ws i)) g)"
      using schedule_goes_on [of "\<lambda>g i. runCheck_auto g ca (ws i)" g fuel q] by simp
  qed
qed

text \<open>A host name that does not resolve.\<close>

theorem probe_error_ends_cycle_witness:
  "runCheck_btn config_example world_unresolved =
     \<lparr>events = [Log (LogChecking ''http://t''), Log (LogChromeError ''net::ERR_NAME_NOT_RESOLVED''),
                Log (LogCheckError ''net::ERR_NAME_NOT_RESOLVED'')],
      status = Continue, elapsed = 2 * Second\<rparr>
   \<and> runCheck_mail config_example world_unresolved =
     \<lparr>events = [Log (LogChecking ''http://t''), Log (LogChromeError ''net::ERR_NAME_NOT_RESOLVED''),
                Log (LogCheckError ''net::ERR_NAME_NOT_RESOLVED'')],
      status = Continue, elapsed = 2 * Second\<rparr>
   \<and> runCheck_auto (initBrowser globals0) config_auto_example world_unresolved =
     (\<lparr>events = [Log (LogChecking ''http://t''), Log (LogChromeError ''net::ERR_NAME_NOT_RESOLVED''),
                 Log (LogCheckError ''net::ERR_NAME_NOT_RESOLVED'')],
       status = Continue, elapsed = 2 * Second\<rparr>, initBrowser globals0)"
proof -
  have g: "browserAllocCtx (initBrowser globals0) = Some 0" "0 \<in> live (initBrowser globals0)"
    by (simp_all add: initBrowser_globals0)
  have u: "TargetURL config_example = ''http://t''" "TargetURL config_auto_example = ''http://t''"
    "page world_unresolved = page_unresolved"
    by (simp_all add: config_example_def config_auto_example_def world_unresolved_def)
  from probe_error_ends_cycle [OF unresolved_no_deadline g, of world_unresolved config_example
      "2 * Second" config_auto_example] page_unresolved_run
  show ?thesis by (simp add: u)
qed

text \<open>
  Claim C3 as stated fails: a navigation that never ends is a failure of the
  navigation, before any wait for the marker, and the probe returns \<open>false\<close> with no
  error.
\<close>

theorem navigation_timeout_counterexample:
  "run_actions page_nav_hangs (30 * Second) [Allocate, Navigate ''http://t'']
     = (30 * Second, Some deadlineExceeded)
   \<and> checkTicketAvailability_mail page_nav_hangs ''http://t'' =
       \<lparr>available = False, err = None,
        plog = [LogChecking ''http://t'', LogListNotFound], ptime = 30 * Second\<rparr>
   \<and> checkTicketAvailability_btn page_nav_hangs ''http://t'' =
       \<lparr>available = False, err = None,
        plog = [LogChecking ''http://t'', LogButtonNotFound], ptime = 30 * Second\<rparr>"
proof -
  have 1: "run_actions page_nav_hangs (30 * Second) [Allocate, Navigate ''http://t'']
     = (30 * Second, Some deadlineExceeded)"
    by (simp add: page_nav_hangs_def behaviour_of_def Second_def)
  have 2: "checkTicketAvailability_mail page_nav_hangs ''http://t'' =
       \<lparr>available = False, err = None,
        plog = [LogChecking ''http://t'', LogListNotFound], ptime = 30 * Second\<rparr>"
    by (simp add: checkTicketAvailability_mail_def texts_failed [OF page_nav_hangs_run]
        mentions_deadline_self)
  have 3: "checkTicketAvailability_btn page_nav_hangs ''http://t'' =
       \<lparr>available = False, err = None,
        plog = [LogChecking ''http://t'', LogButtonNotFound], ptime = 30 * Second\<rparr>"
    by (simp add: btn_failed [OF page_nav_hangs_run] mentions_deadline_self)
  from 1 2 3 show ?thesis by blast
qed

subsection \<open>C4: one global allocator\<close>

lemma initBrowser_iterated:
  "0 < n \<Longrightarrow> (initBrowser ^^ n) globals0 =
     \<lparr>browserAllocCtx = Some (n - 1), browserCancel = Some (n - 1), live = {n - 1}, fresh = n\<rparr>"
proof (induction n)
  case 0
  then show ?case by simp
next
  case (Suc n)
  show ?case
  proof (cases "n = 0")
    case True
    then show ?thesis by (simp add: initBrowser_globals0)
  next
    case False
    with Suc.IH show ?thesis
      by (simp add: initBrowser_def initBrowser_open_def initBrowser_close_def)
  qed
qed

lemma initBrowser_twice:
  "initBrowser (initBrowser globals0) =
     \<lparr>browserAllocCtx = Some 1, browserCancel = Some 1, live = {1}, fresh = 2\<rparr>"
  by (simp add: initBrowser_def initBrowser_open_def initBrowser_close_def globals0_def)

text \<open>
  Claim C4.  After any number of calls of \<open>initBrowser\<close> from the start of the process
  at most one allocator is live; within a call, none is live once the old one was
  cancelled and before the new one is made; after at least one call exactly one is
  live, the one the two variables name; two calls in sequence leave exactly one.
\<close>

theorem one_background_session:
  "card (live ((initBrowser ^^ n) globals0)) \<le> 1
   \<and> live (initBrowser_close ((initBrowser ^^ n) globals0)) = {}
   \<and> (0 < n \<longrightarrow>
        live ((initBrowser ^^ n) globals0) = {n - 1}
        \<and> browserAllocCtx ((initBrowser ^^ n) globals0) = Some (n - 1)
        \<and> browserCancel ((initBrowser ^^ n) globals0) = Some (n - 1))
   \<and> card (live (initBrowser (initBrowser globals0))) = 1"
proof (cases "n = 0")
  case True
  have "card (live (initBrowser (initBrowser globals0))) = 1"
    by (simp add: initBrowser_twice)
  with True show ?thesis
    by (simp add: globals0_def initBrowser_close_def)
next
  case False
  then have n: "0 < n" by simp
  have "card (live (initBrowser (initBrowser globals0))) = 1"
    by (simp add: initBrowser_twice)
  with n show ?thesis
    by (simp add: initBrowser_iterated [OF n] initBrowser_close_def)
qed

text \<open>Two calls: the second allocator is the only one live.\<close>

theorem one_background_session_witness:
  "live (initBrowser (initBrowser globals0)) = {1}
   \<and> browserAllocCtx (initBrowser (initBrowser globals0)) = Some 1
   \<and> live (initBrowser_close (initBrowser globals0)) = {}"
proof -
  have 2: "(initBrowser ^^ 2) globals0 = initBrowser (initBrowser globals0)"
    by (simp add: numeral_2_eq_2)
  have 1: "(initBrowser ^^ 1) globals0 = initBrowser globals0"
    by simp
  from one_background_session [of 2] one_background_session [of 1] show ?thesis
    unfolding 1 2 by simp
qed

subsection \<open>C5: the cycles follow each other\<close>

lemma ticker_recv_ge: "0 < p \<Longrightarrow> now \<le> ticker_recv p r now"
proof -
  assume p: "0 < p"
  have "now < (now div p + 1) * p"
    using p by (metis Suc_eq_plus1 dividend_less_div_times mult.commute mult_Suc_right add.commute)
  then show ?thesis by (simp add: ticker_recv_def)
qed

lemma ticker_recv_tick: "0 < p \<Longrightarrow> r \<le> now \<Longrightarrow> r div p < ticker_recv p r now div p"
proof -
  assume p: "0 < p" and r: "r \<le> now"
  show ?thesis
  proof (cases "r div p < now div p")
    case True
    then show ?thesis by (simp add: ticker_recv_def)
  next
    case False
    moreover have "r div p \<le> now div p" using r by (rule div_le_mono)
    ultimately have "r div p = now div p" by simp
    with False p show ?thesis by (simp add: ticker_recv_def)
  qed
qed

lemma ticker_recv_late: "0 < p \<Longrightarrow> r + p \<le> now \<Longrightarrow> ticker_recv p r now = now"
proof -
  assume p: "0 < p" and r: "r + p \<le> now"
  have "(r + p) div p \<le> now div p" using r by (rule div_le_mono)
  moreover have "(r + p) div p = r div p + 1" using p by (simp add: div_add_self2)
  ultimately have "r div p < now div p" by simp
  then show ?thesis by (simp add: ticker_recv_def)
qed

lemma ticker_recv_le: "0 < p \<Longrightarrow> ticker_recv p r now \<le> now + p"
proof -
  assume p: "0 < p"
  have "now div p * p \<le> now" by simp
  then have "(now div p + 1) * p \<le> now + p" by (simp add: algebra_simps)
  then show ?thesis by (simp add: ticker_recv_def)
qed

lemma ticker_loop_in_sequence:
  assumes st: "\<And>g' j. snd (run g' j) = g'"
  shows "in_sequence p (\<lambda>j. fst (run g j)) i (ticker_recv p r now)
           (ticker_loop fuel p run g i r now)"
proof (induction fuel arbitrary: i r now)
  case 0
  then show ?case by simp
next
  case (Suc fuel)
  obtain c g' where c: "run g i = (c, g')" by (cases "run g i")
  with st [of g i] have g': "g' = g" by simp
  show ?case
    using Suc.IH [of "Suc i" "ticker_recv p r now" "ticker_recv p r now + elapsed c"]
    by (simp add: c g' Let_def)
qed

lemma ticker_loop_length:
  assumes st: "\<And>g' j. snd (run g' j) = g'"
  shows "length (ticker_loop fuel p run g i r now) \<le> fuel
     \<and> (length (ticker_loop fuel p run g i r now) < fuel \<longrightarrow>
          status (fst (run g (i + length (ticker_loop fuel p run g i r now) - 1))) \<noteq> Continue)"
proof (induction fuel arbitrary: i r now)
  case 0
  then show ?case by simp
next
  case (Suc fuel)
  obtain c g' where c: "run g i = (c, g')" by (cases "run g i")
  with st [of g i] have g': "g' = g" by simp
  show ?case
  proof (cases "status c = Continue")
    case True
    with Suc.IH [of "Suc i" "ticker_recv p r now" "ticker_recv p r now + elapsed c"]
    show ?thesis by (simp add: c g' Let_def)
  next
    case False
    then show ?thesis by (simp add: c Let_def)
  qed
qed

lemma in_sequence_nth:
  "in_sequence p cyc i s xs \<Longrightarrow> k < length xs \<Longrightarrow>
   did (xs ! k) = cyc (i + k)
   \<and> finished (xs ! k) = started (xs ! k) + elapsed (cyc (i + k))
   \<and> (k = 0 \<longrightarrow> started (xs ! k) = s)
   \<and> (Suc k < length xs \<longrightarrow>
        status (cyc (i + k)) = Continue
        \<and> started (xs ! Suc k) = ticker_recv p (started (xs ! k)) (finished (xs ! k)))"
proof (induction xs arbitrary: i s k)
  case Nil
  then show ?case by simp
next
  case (Cons x xs)
  from Cons.prems(1) have x: "started x = s" "did x = cyc i" "finished x = s + elapsed (cyc i)"
    and c: "xs \<noteq> [] \<longrightarrow> status (cyc i) = Continue"
    and rest: "in_sequence p cyc (Suc i) (ticker_recv p s (s + elapsed (cyc i))) xs"
    by simp_all
  show ?case
  proof (cases k)
    case 0
    show ?thesis
    proof (cases xs)
      case Nil
      with 0 x show ?thesis by simp
    next
      case (Cons y ys)
      then have "0 < length xs" by simp
      from Cons.IH [OF rest this] have "started (xs ! 0) = ticker_recv p s (s + elapsed (cyc i))"
        by simp
      with 0 x c Cons show ?thesis by simp
    qed
  next
    case (Suc j)
    with Cons.prems(2) have "j < length xs" by simp
    from Cons.IH [OF rest this] Suc show ?thesis by simp
  qed
qed

lemma schedule_in_sequence:
  assumes st: "\<And>g' j. snd (run g' j) = g'"
  shows "in_sequence p (\<lambda>j. fst (run g j)) 0 0 (schedule fuel p run g)"
proof -
  obtain c g' where c: "run g 0 = (c, g')" by (cases "run g 0")
  with st [of g 0] have g': "g' = g" by simp
  show ?thesis
    using ticker_loop_in_sequence [of run p g 1 0 "elapsed c" fuel, OF st]
    by (simp add: schedule_def c g')
qed

lemma schedule_length:
  assumes st: "\<And>g' j. snd (run g' j) = g'"
  shows "schedule fuel p run g \<noteq> [] \<and> length (schedule fuel p run g) \<le> Suc fuel
     \<and> (length (schedule fuel p run g) < Suc fuel \<longrightarrow>
          status (fst (run g (length (schedule fuel p run g) - 1))) \<noteq> Continue)"
proof -
  obtain c g' where c: "run g 0 = (c, g')" by (cases "run g 0")
  with st [of g 0] have g': "g' = g" by simp
  show ?thesis
  proof (cases "status c = Continue")
    case True
    with ticker_loop_length [of run fuel p g 1 0 "elapsed c", OF st]
    show ?thesis by (simp add: schedule_def c g')
  next
    case False
    then show ?thesis by (simp add: schedule_def c)
  qed
qed

lemma schedule_timing:
  assumes p: "0 < p" and st: "\<And>g' j. snd (run g' j) = g'"
    and tr: "tr = schedule fuel p run g" and cyc: "cyc = (\<lambda>j. fst (run g j))"
  shows "tr \<noteq> [] \<and> length tr \<le> Suc fuel \<and> started (tr ! 0) = 0
     \<and> (\<forall>i<length tr. did (tr ! i) = cyc i
            \<and> finished (tr ! i) = started (tr ! i) + elapsed (cyc i))
     \<and> (\<forall>i. Suc i < length tr \<longrightarrow>
          status (cyc i) = Continue
          \<and> started (tr ! Suc i) = ticker_recv p (started (tr ! i)) (finished (tr ! i))
          \<and> finished (tr ! i) \<le> started (tr ! Suc i)
          \<and> started (tr ! Suc i) \<le> finished (tr ! i) + p
          \<and> started (tr ! i) div p < started (tr ! Suc i) div p
          \<and> (started (tr ! i) + p \<le> finished (tr ! i) \<longrightarrow> started (tr ! Suc i) = finished (tr ! i)))
     \<and> (length tr < Suc fuel \<longrightarrow> status (cyc (length tr - 1)) \<noteq> Continue)"
proof -
  have seq: "in_sequence p cyc 0 0 tr"
    unfolding tr cyc by (rule schedule_in_sequence [OF st])
  have len: "tr \<noteq> [] \<and> length tr \<le> Suc fuel
     \<and> (length tr < Suc fuel \<longrightarrow> status (cyc (length tr - 1)) \<noteq> Continue)"
    unfolding tr cyc by (rule schedule_length [OF st])
  then have "0 < length tr" by simp
  from in_sequence_nth [OF seq this] have a: "started (tr ! 0) = 0" by simp
  have b: "did (tr ! i) = cyc i \<and> finished (tr ! i) = started (tr ! i) + elapsed (cyc i)"
    if "i < length tr" for i
    using in_sequence_nth [OF seq that] by simp
  have c: "status (cyc i) = Continue
          \<and> started (tr ! Suc i) = ticker_recv p (started (tr ! i)) (finished (tr ! i))
          \<and> finished (tr ! i) \<le> started (tr ! Suc i)
          \<and> started (tr ! Suc i) \<le> finished (tr ! i) + p
          \<and> started (tr ! i) div p < started (tr ! Suc i) div p
          \<and> (started (tr ! i) + p \<le> finished (tr ! i) \<longrightarrow> started (tr ! Suc i) = finished (tr ! i))"
    if "Suc i < length tr" for i
  proof -
    from that have i: "i < length tr" by simp
    from in_sequence_nth [OF seq i] that
    have s: "status (cyc i) = Continue"
      and e: "started (tr ! Suc i) = ticker_recv p (started (tr ! i)) (finished (tr ! i))"
      and l: "started (tr ! i) \<le> finished (tr ! i)"
      by simp_all
    show ?thesis
      unfolding e
      using s ticker_recv_ge [OF p] ticker_recv_le [OF p] ticker_recv_tick [OF p l]
        ticker_recv_late [OF p]
      by blast
  qed
  from len a b c show ?thesis by blast
qed

lemma runCheck_auto_globals: "snd (runCheck_auto g config w) = g"
  by (simp add: runCheck_auto_def Let_def split: option.splits)

lemma main_startup_Scheduling:
  "main_startup loaded = Scheduling c \<Longrightarrow> loaded = Inr c \<and> 0 < nat (sint (CheckInterval c))"
  by (auto simp: main_startup_def split: sum.splits if_splits)

lemma main_btn_Scheduling:
  assumes "main_btn env ws fuel = (Scheduling c, tr)"
  shows "0 < nat (sint (CheckInterval c))
     \<and> tr = schedule fuel (nat (sint (CheckInterval c))) (\<lambda>g i. (runCheck_btn c (ws i), g)) ()"
proof (cases "main_startup (loadConfig env)")
  case (Fatal e)
  with assms show ?thesis by (simp add: main_btn_def)
next
  case TickerPanic
  with assms show ?thesis by (simp add: main_btn_def)
next
  case (Scheduling c')
  with assms have "c' = c" by (simp add: main_btn_def)
  with assms Scheduling main_startup_Scheduling [of "loadConfig env" c] show ?thesis
    by (simp add: main_btn_def)
qed

lemma main_mail_Scheduling:
  assumes "main_mail env ws fuel = (Scheduling c, tr)"
  shows "0 < nat (sint (CheckInterval c))
     \<and> tr = schedule fuel (nat (sint (CheckInterval c))) (\<lambda>g i. (runCheck_mail c (ws i), g)) ()"
proof (cases "main_startup (loadConfig env)")
  case (Fatal e)
  with assms show ?thesis by (simp add: main_mail_def)
next
  case TickerPanic
  with assms show ?thesis by (simp add: main_mail_def)
next
  case (Scheduling c')
  with assms have "c' = c" by (simp add: main_mail_def)
  with assms Scheduling main_startup_Scheduling [of "loadConfig env" c] show ?thesis
    by (simp add: main_mail_def)
qed

lemma main_auto_Scheduling:
  assumes "main_auto env ws fuel = (Scheduling c, tr)"
  shows "0 < nat (sint (CheckInterval c))
     \<and> tr = schedule fuel (nat (sint (CheckInterval c))) (\<lambda>g i. runCheck_auto g c (ws i))
              (initBrowser globals0)"
proof (cases "main_startup (loadConfig_auto env)")
  case (Fatal e)
  with assms show ?thesis by (simp add: main_auto_def)
next
  case TickerPanic
  with assms show ?thesis by (simp add: main_auto_def)
next
  case (Scheduling c')
  with assms have "c' = c" by (simp add: main_auto_def)
  with assms Scheduling main_startup_Scheduling [of "loadConfig_auto env" c] show ?thesis
    by (simp add: main_auto_def)
qed

text \<open>
  Claim C5.  When \<open>main\<close> of any of the three programs reaches the loop, with interval
  \<open>p\<close> and with \<open>run i\<close> the call of \<open>runCheck\<close> on what cycle \<open>i\<close> finds around it, the
  list \<open>tr\<close> of what the loop did is this.  The interval is positive.  The slot \<open>i\<close> is
  the call \<open>run i\<close>, and it ends when that call has taken its time.  The first call
  starts at time 0, when the ticker is made and before its first tick.  A call is
  followed by another only when it returned; the next call starts where the ticker
  lets the loop go on: no earlier than the end of the call before it, no later than one
  interval after that end, with at least one tick of the ticker between the two
  starts, and at the very end of a call that took the interval or longer.  The loop
  runs a call for each of the iterations followed unless a call ended the process.
\<close>

theorem cycles_in_sequence:
  assumes "(main_btn env ws fuel = (Scheduling config, tr) \<and> p = nat (sint (CheckInterval config))
            \<and> run = (\<lambda>i. runCheck_btn config (ws i)))
         \<or> (main_mail env ws fuel = (Scheduling config, tr) \<and> p = nat (sint (CheckInterval config))
            \<and> run = (\<lambda>i. runCheck_mail config (ws i)))
         \<or> (main_auto env ws fuel = (Scheduling ca, tr) \<and> p = nat (sint (CheckInterval ca))
            \<and> run = (\<lambda>i. fst (runCheck_auto (initBrowser globals0) ca (ws i))))"
  shows "0 < p \<and> tr \<noteq> [] \<and> length tr \<le> Suc fuel \<and> started (tr ! 0) = 0
     \<and> (\<forall>i<length tr. did (tr ! i) = run i
            \<and> finished (tr ! i) = started (tr ! i) + elapsed (run i))
     \<and> (\<forall>i. Suc i < length tr \<longrightarrow>
          status (run i) = Continue
          \<and> started (tr ! Suc i) = ticker_recv p (started (tr ! i)) (finished (tr ! i))
          \<and> finished (tr ! i) \<le> started (tr ! Suc i)
          \<and> started (tr ! Suc i) \<le> finished (tr ! i) + p
          \<and> started (tr ! i) div p < started (tr ! Suc i) div p
          \<and> (started (tr ! i) + p \<le> finished (tr ! i) \<longrightarrow> started (tr ! Suc i) = finished (tr ! i)))
     \<and> (length tr < Suc fuel \<longrightarrow> status (run (length tr - 1)) \<noteq> Continue)"
proof -
  from assms consider
      (btn) "main_btn env ws fuel = (Scheduling config, tr)" "p = nat (sint (CheckInterval config))"
        "run = (\<lambda>i. runCheck_btn config (ws i))"
    | (mail) "main_mail env ws fuel = (Scheduling config, tr)" "p = nat (sint (CheckInterval config))"
        "run = (\<lambda>i. runCheck_mail config (ws i))"
    | (auto) "main_auto env ws fuel = (Scheduling ca, tr)" "p = nat (sint (CheckInterval ca))"
        "run = (\<lambda>i. fst (runCheck_auto (initBrowser globals0) ca (ws i)))"
    by blast
  then show ?thesis
  proof cases
    case btn
    from main_btn_Scheduling [OF btn(1)] btn(2)
    have p: "0 < p" and tr: "tr = schedule fuel p (\<lambda>g i. (runCheck_btn config (ws i), g)) ()"
      by simp_all
    have st: "snd ((\<lambda>g i. (runCheck_btn config (ws i), g)) g' j) = g'" for g' :: unit and j
      by simp
    have cyc: "run = (\<lambda>j. fst ((\<lambda>g i. (runCheck_btn config (ws i), g)) () j))"
      by (simp add: btn(3))
    show ?thesis by (rule conjI [OF p schedule_timing [OF p st tr cyc]])
  next
    case mail
    from main_mail_Scheduling [OF mail(1)] mail(2)
    have p: "0 < p" and tr: "tr = schedule fuel p (\<lambda>g i. (runCheck_mail config (ws i), g)) ()"
      by simp_all
    have st: "snd ((\<lambda>g i. (runCheck_mail config (ws i), g)) g' j) = g'" for g' :: unit and j
      by simp
    have cyc: "run = (\<lambda>j. fst ((\<lambda>g i. (runCheck_mail config (ws i), g)) () j))"
      by (simp add: mail(3))
    show ?thesis by (rule conjI [OF p schedule_timing [OF p st tr cyc]])
  next
    case auto
    from main_auto_Scheduling [OF auto(1)] auto(2)
    have p: "0 < p" and tr: "tr = schedule fuel p (\<lambda>g i. runCheck_auto g ca (ws i))
              (initBrowser globals0)"
      by simp_all
    have st: "snd ((\<lambda>g i. runCheck_auto g ca (ws i)) g' j) = g'" for g' j
      by (simp add: runCheck_auto_globals)
    have cyc: "run = (\<lambda>j. fst ((\<lambda>g i. runCheck_auto g ca (ws i)) (initBrowser globals0) j))"
      by (simp add: auto(3))
    show ?thesis by (rule conjI [OF p schedule_timing [OF p st tr cyc]])
  qed
qed

lemma loadConfig_example: "loadConfig env_example = Inr config_example"
  by (simp add: loadConfig_def env_example_def Getenv_def Atoi_def digit_of_def seconds_def
      remove_spaces_def config_example_def)

lemma runCheck_mail_no_marker:
  "runCheck_mail config_example world_no_marker =
     \<lparr>events = [Log (LogChecking ''http://t''), Log LogListNotFound], status = Continue,
      elapsed = 30 * Second\<rparr>"
proof -
  have "checkTicketAvailability_mail page_no_marker ''http://t'' =
     \<lparr>available = False, err = None,
      plog = [LogChecking ''http://t'', LogListNotFound], ptime = 30 * Second\<rparr>"
    by (simp add: checkTicketAvailability_mail_def check_texts_def Run_def page_no_marker_def
        behaviour_of_def Second_def Contains_deadline_self)
  then show ?thesis
    by (simp add: runCheck_mail_def world_no_marker_def config_example_def)
qed

lemma main_mail_example:
  "main_mail env_example (\<lambda>i. world_no_marker) 1 =
     (Scheduling config_example,
      [\<lparr>started = 0, finished = 30 * Second,
        did = \<lparr>events = [Log (LogChecking ''http://t''), Log LogListNotFound], status = Continue,
               elapsed = 30 * Second\<rparr>\<rparr>,
       \<lparr>started = 60 * Second, finished = 90 * Second,
        did = \<lparr>events = [Log (LogChecking ''http://t''), Log LogListNotFound], status = Continue,
               elapsed = 30 * Second\<rparr>\<rparr>])"
proof -
  have s: "main_startup (loadConfig env_example) = Scheduling config_example"
    by (simp add: loadConfig_example main_startup_def config_example_def)
  have i: "nat (sint (CheckInterval config_example)) = 60 * Second"
    by (simp add: config_example_def Second_def)
  show ?thesis
    by (simp add: main_mail_def s i schedule_def runCheck_mail_no_marker Let_def ticker_recv_def
        Second_def)
qed

text \<open>
  Two cycles of mail with the default interval of 60 seconds, each taking the 30
  seconds of a marker that never shows.
\<close>

theorem cycles_in_sequence_witness:
  "length (snd (main_mail env_example (\<lambda>i. world_no_marker) 1)) = 2
   \<and> started (snd (main_mail env_example (\<lambda>i. world_no_marker) 1) ! 0) = 0
   \<and> did (snd (main_mail env_example (\<lambda>i. world_no_marker) 1) ! 1)
       = runCheck_mail config_example world_no_marker
   \<and> finished (snd (main_mail env_example (\<lambda>i. world_no_marker) 1) ! 0) = 30 * Second
   \<and> finished (snd (main_mail env_example (\<lambda>i. world_no_marker) 1) ! 0)
       \<le> started (snd (main_mail env_example (\<lambda>i. world_no_marker) 1) ! 1)
   \<and> started (snd (main_mail env_example (\<lambda>i. world_no_marker) 1) ! 1) = 60 * Second"
proof -
  define tr where "tr = snd (main_mail env_example (\<lambda>i. world_no_marker) 1)"
  have tr: "tr =
      [\<lparr>started = 0, finished = 30 * Second,
        did = \<lparr>events = [Log (LogChecking ''http://t''), Log LogListNotFound], status = Continue,
               elapsed = 30 * Second\<rparr>\<rparr>,
       \<lparr>started = 60 * Second, finished = 90 * Second,
        did = \<lparr>events = [Log (LogChecking ''http://t''), Log LogListNotFound], status = Continue,
               elapsed = 30 * Second\<rparr>\<rparr>]"
    unfolding tr_def main_mail_example by simp
  have m: "main_mail env_example (\<lambda>i. world_no_marker) 1 = (Scheduling config_example, tr)
            \<and> 60 * Second = nat (sint (CheckInterval config_example))
            \<and> (\<lambda>i. runCheck_mail config_example world_no_marker)
                = (\<lambda>i. runCheck_mail config_example ((\<lambda>i. world_no_marker) i))"
  proof (intro conjI)
    show "main_mail env_example (\<lambda>i. world_no_marker) 1 = (Scheduling config_example, tr)"
      unfolding tr_def main_mail_example by simp
    show "60 * Second = nat (sint (CheckInterval config_example))"
      by (simp add: config_example_def Second_def)
  qed simp
  have l: "Suc 0 < length tr" "1 < length tr" by (simp_all add: tr)
  from cycles_in_sequence [of env_example "\<lambda>i. world_no_marker" 1 config_example tr "60 * Second"
      "\<lambda>i. runCheck_mail config_example world_no_marker" config_auto_example,
      OF disjI2 [OF disjI1 [OF m]]]
  have a: "\<forall>i<length tr. did (tr ! i) = runCheck_mail config_example world_no_marker"
    and b: "\<forall>i. Suc i < length tr \<longrightarrow> finished (tr ! i) \<le> started (tr ! Suc i)"
    by blast+
  from a l(2) have 1: "did (tr ! 1) = runCheck_mail config_example world_no_marker" by blast
  from b l(1) have "finished (tr ! 0) \<le> started (tr ! Suc 0)" by blast
  then have 2: "finished (tr ! 0) \<le> started (tr ! 1)" by simp
  have 3: "length tr = 2" "started (tr ! 0) = 0" "finished (tr ! 0) = 30 * Second"
    "started (tr ! 1) = 60 * Second"
    by (simp_all add: tr)
  from 1 2 3 show ?thesis unfolding tr_def by blast
qed

subsection \<open>C6: one mail, then exit\<close>

lemma btn_available:
  "available (checkTicketAvailability_btn b url) \<Longrightarrow>
   \<exists>t. checkTicketAvailability_btn b url =
     \<lparr>available = True, err = None, plog = [LogChecking url, LogButtonFound], ptime = t\<rparr>"
  by (auto simp: checkTicketAvailability_btn_def split: prod.splits option.splits if_splits)

text \<open>
  Claim C6.  In btn, when the probe reports the button, the cycle holds exactly one
  \<open>DialAndSend\<close>, with the sender, recipient and URL of the configuration.  When it
  succeeds the process exits with status 0 and the loop runs no further cycle.  When
  it fails with \<open>e\<close>, the last thing the cycle does is log \<open>e\<close>, there is no second
  attempt, \<open>runCheck\<close> returns and the loop runs the next cycle.
\<close>

theorem notify_once_then_exit:
  assumes "available (checkTicketAvailability_btn (page w) (TargetURL config))"
    and "smtp w \<lparr>d_host = SmtpHost config, d_port = SmtpPort config,
                 d_user = SenderEmail config, d_password = SenderPassword config\<rparr>
                \<lparr>m_from = SenderEmail config, m_to = RecipientEmail config,
                 m_link = TargetURL config\<rparr> = (t, r)"
  shows "filter is_mail (events (runCheck_btn config w)) =
           [SendMail \<lparr>d_host = SmtpHost config, d_port = SmtpPort config,
                      d_user = SenderEmail config, d_password = SenderPassword config\<rparr>
                     \<lparr>m_from = SenderEmail config, m_to = RecipientEmail config,
                      m_link = TargetURL config\<rparr>]
       \<and> (r = None \<longrightarrow>
            status (runCheck_btn config w) = Exit 0
            \<and> (\<forall>ws fuel p. ws 0 = w \<longrightarrow>
                 length (schedule fuel p (\<lambda>g i. (runCheck_btn config (ws i), g)) ()) = 1))
       \<and> (\<forall>e. r = Some e \<longrightarrow>
            status (runCheck_btn config w) = Continue
            \<and> last (events (runCheck_btn config w)) = Log (LogMailError e)
            \<and> (\<forall>ws fuel p. ws 0 = w \<longrightarrow>
                 2 \<le> length (schedule (Suc fuel) p (\<lambda>g i. (runCheck_btn config (ws i), g)) ())))"
proof -
  obtain tp where p: "checkTicketAvailability_btn (page w) (TargetURL config) =
     \<lparr>available = True, err = None, plog = [LogChecking (TargetURL config), LogButtonFound],
      ptime = tp\<rparr>"
    using btn_available [OF assms(1)] by blast
  have 1: "filter is_mail (events (runCheck_btn config w)) =
           [SendMail \<lparr>d_host = SmtpHost config, d_port = SmtpPort config,
                      d_user = SenderEmail config, d_password = SenderPassword config\<rparr>
                     \<lparr>m_from = SenderEmail config, m_to = RecipientEmail config,
                      m_link = TargetURL config\<rparr>]"
    by (cases r) (simp_all add: runCheck_btn_def p sendEmailNotification_def assms(2) is_mail_def)
  have 2: "status (runCheck_btn config w) = Exit 0" if "r = None"
    using that by (simp add: runCheck_btn_def p sendEmailNotification_def assms(2))
  have 3: "status (runCheck_btn config w) = Continue
      \<and> last (events (runCheck_btn config w)) = Log (LogMailError e)" if "r = Some e" for e
    using that by (simp add: runCheck_btn_def p sendEmailNotification_def assms(2))
  have 4: "length (schedule fuel q (\<lambda>g i. (runCheck_btn config (ws i), g)) ()) = 1"
    if "r = None" "ws 0 = w" for ws fuel q
    using schedule_stops [of "\<lambda>g i. (runCheck_btn config (ws i), g)" "()" fuel q] 2 that
    by simp
  have 5: "2 \<le> length (schedule (Suc fuel) q (\<lambda>g i. (runCheck_btn config (ws i), g)) ())"
    if "r = Some e" "ws 0 = w" for ws fuel q e
    using schedule_goes_on [of "\<lambda>g i. (runCheck_btn config (ws i), g)" "()" fuel q] 3 that
    by simp
  from 1 2 3 4 5 show ?thesis by blast
qed

lemma page_tickets_button:
  "checkTicketAvailability_btn page_tickets ''http://t'' =
     \<lparr>available = True, err = None, plog = [LogChecking ''http://t'', LogButtonFound],
      ptime = 3 * Second\<rparr>"
  by (simp add: checkTicketAvailability_btn_def Run_def page_tickets_def behaviour_of_def
      Second_def)

text \<open>A transport that works, and one that refuses the connection.\<close>

theorem notify_once_then_exit_witness:
  "status (runCheck_btn config_example world_button) = Exit 0
   \<and> length (filter is_mail (events (runCheck_btn config_example world_button))) = 1
   \<and> status (runCheck_btn config_example world_smtp_down) = Continue
   \<and> last (events (runCheck_btn config_example world_smtp_down))
       = Log (LogMailError ''dial tcp: connection refused'')
   \<and> length (filter is_mail (events (runCheck_btn config_example world_smtp_down))) = 1"
proof -
  have a: "available (checkTicketAvailability_btn (page world_button) (TargetURL config_example))"
    "available (checkTicketAvailability_btn (page world_smtp_down) (TargetURL config_example))"
    by (simp_all add: world_button_def world_smtp_down_def config_example_def page_tickets_button)
  have s1: "smtp world_button
       \<lparr>d_host = SmtpHost config_example, d_port = SmtpPort config_example,
         d_user = SenderEmail config_example, d_password = SenderPassword config_example\<rparr>
        \<lparr>m_from = SenderEmail config_example, m_to = RecipientEmail config_example,
         m_link = TargetURL config_example\<rparr> = (Second, None)"
    by (simp add: world_button_def)
  have s2: "smtp world_smtp_down
       \<lparr>d_host = SmtpHost config_example, d_port = SmtpPort config_example,
         d_user = SenderEmail config_example, d_password = SenderPassword config_example\<rparr>
        \<lparr>m_from = SenderEmail config_example, m_to = RecipientEmail config_example,
         m_link = TargetURL config_example\<rparr> = (Second, Some ''dial tcp: connection refused'')"
    by (simp add: world_smtp_down_def)
  from notify_once_then_exit [OF a(1) s1] notify_once_then_exit [OF a(2) s2]
  show ?thesis by simp
qed

subsection \<open>C7: a failed auto-fill falls back to the manual instruction\<close>

lemma run_actions_fails_at:
  "run_actions b left pre = (t, None) \<Longrightarrow>
   perform (left - t) (behaviour_of b a) = (t', Some e) \<Longrightarrow>
   run_actions b left (pre @ a # post) = (t + t', Some e)"
proof (induction pre arbitrary: left t)
  case Nil
  then show ?case by simp
next
  case (Cons x xs)
  obtain t1 r1 where p1: "perform left (behaviour_of b x) = (t1, r1)"
    by (cases "perform left (behaviour_of b x)")
  with Cons.prems(1) have r1: "r1 = None" by (cases r1) simp_all
  obtain t2 r2 where p2: "run_actions b (left - t1) xs = (t2, r2)"
    by (cases "run_actions b (left - t1) xs")
  with Cons.prems(1) p1 r1 have t: "t = t1 + t2" and r2: "r2 = None" by simp_all
  have "perform (left - t1 - t2) (behaviour_of b a) = (t', Some e)"
    using Cons.prems(2) t by simp
  from Cons.IH [OF p2 [unfolded r2] this] show ?case
    by (simp add: p1 r1 t)
qed

text \<open>
  Claim C7, as amended.  In auto, when the probe reports tickets and any one action of
  the auto-fill (the start of the visible browser or a scripted step \<open>a\<close>, after the
  actions \<open>pre\<close> before it went well) returns an error \<open>e\<close>, as a form that never
  becomes visible does at the deadline, \<open>autoFillAndWaitForCaptcha\<close> returns \<open>e\<close>, and
  the cycle ends with the log of the failure, the instruction to go to the target URL
  by hand and the closing hint; \<open>runCheck\<close> returns and the loop runs the next cycle.
\<close>

theorem autofill_failure_falls_back:
  assumes "checkTicketAvailability_auto g (page w) (TargetURL ca) = Some pr"
    and "err pr = None" and "available pr"
    and "Allocate # fill_actions (TargetURL ca) = pre @ a # post"
    and "run_actions (visible w) (3 * Minute) pre = (t, None)"
    and "perform (3 * Minute - t) (behaviour_of (visible w) a) = (t', Some e)"
  shows "af_err (autoFillAndWaitForCaptcha w (TargetURL ca)) = Some e
     \<and> status (fst (runCheck_auto g ca w)) = Continue
     \<and> snd (runCheck_auto g ca w) = g
     \<and> (\<exists>before. events (fst (runCheck_auto g ca w)) =
           before @ [Log (LogFillError e), Log (LogAutoFillFailed e),
                     Log (LogGoManually (TargetURL ca)), Log LogKeepRunningHint])
     \<and> (\<forall>ws fuel p. ws 0 = w \<longrightarrow>
           2 \<le> length (schedule (Suc fuel) p (\<lambda>g i. runCheck_auto g ca (ws i)) g))"
proof -
  have r: "Run (visible w) (3 * Minute) (fill_actions (TargetURL ca)) = (t + t', Some e)"
    unfolding Run_def assms(4) by (rule run_actions_fails_at [OF assms(5,6)])
  define shown where "shown =
    [Log LogOpeningBrowser]
    @ (if first_existing (file_exists w) chromePaths \<noteq> []
       then [Log (LogUsingChrome (first_existing (file_exists w) chromePaths))] else [])
    @ [Log LogNavigating,
       VisibleBrowser (if first_existing (file_exists w) chromePaths \<noteq> []
                       then Some (first_existing (file_exists w) chromePaths) else None)]"
  have a: "autoFillAndWaitForCaptcha w (TargetURL ca) =
     \<lparr>af_err = Some e, af_events = shown @ [Log (LogFillError e)],
      af_steps_done = t + t', af_return = t + t', af_closed = min (3 * Minute) (t + t')\<rparr>"
    by (simp add: autoFillAndWaitForCaptcha_def r Let_def shown_def)
  have c: "runCheck_auto g ca w =
     (\<lparr>events = (map Log (plog pr) @ [Log LogLaunchingAutoFill] @ shown)
                @ [Log (LogFillError e), Log (LogAutoFillFailed e),
                   Log (LogGoManually (TargetURL ca)), Log LogKeepRunningHint],
       status = Continue, elapsed = ptime pr + (t + t')\<rparr>, g)"
    by (simp add: runCheck_auto_def assms(1-3) a Let_def)
  have l: "2 \<le> length (schedule (Suc fuel) q (\<lambda>g i. runCheck_auto g ca (ws i)) g)"
    if "ws 0 = w" for ws :: "nat \<Rightarrow> world" and fuel q :: nat
    using schedule_goes_on [of "\<lambda>g i. runCheck_auto g ca (ws i)" g fuel q] c that by simp
  from a c l show ?thesis by simp
qed

text \<open>The form \<open>#ticketPriceList\<close> never becomes visible: the failure is the deadline.\<close>

theorem autofill_failure_falls_back_witness:
  "af_err (autoFillAndWaitForCaptcha world_no_form ''http://t'') = Some deadlineExceeded
   \<and> status (fst (runCheck_auto (initBrowser globals0) config_auto_example world_no_form)) = Continue
   \<and> (\<exists>before. events (fst (runCheck_auto (initBrowser globals0) config_auto_example world_no_form)) =
         before @ [Log (LogFillError deadlineExceeded), Log (LogAutoFillFailed deadlineExceeded),
                   Log (LogGoManually ''http://t''), Log LogKeepRunningHint])"
proof -
  have u: "TargetURL config_auto_example = ''http://t''"
    by (simp add: config_auto_example_def)
  have 1: "checkTicketAvailability_auto (initBrowser globals0) (page world_no_form)
      (TargetURL config_auto_example) = Some (check_texts page_tickets ''http://t'')"
    by (simp add: world_no_form_def u initBrowser_globals0 checkTicketAvailability_auto_def)
  have c: "check_texts page_tickets ''http://t'' =
      \<lparr>available = True, err = None,
       plog = [LogChecking ''http://t'', LogFoundArea remaining_5], ptime = 4 * Second\<rparr>"
    by (simp add: check_texts_found [OF page_tickets_run] page_tickets_texts
        remaining_5_def kw_remaining_def kw_hot_def)
  have 2: "err (check_texts page_tickets ''http://t'') = None"
    and 3: "available (check_texts page_tickets ''http://t'')"
    by (simp_all add: c)
  have 4: "Allocate # fill_actions (TargetURL config_auto_example) =
      [Allocate, Navigate ''http://t''] @ WaitVisible ''#ticketPriceList''
      # [Sleep (500 * Millisecond), EvaluateSelect, Sleep (300 * Millisecond),
         Click ''#TicketForm_agree'', Sleep (300 * Millisecond),
         Focus ''#TicketForm_verifyCode'']"
    by (simp add: fill_actions_def u)
  have 5: "run_actions (visible world_no_form) (3 * Minute) [Allocate, Navigate ''http://t'']
      = (2 * Second, None)"
    by (simp add: world_no_form_def page_no_marker_def behaviour_of_def Minute_def Second_def)
  have 6: "perform (3 * Minute - 2 * Second)
      (behaviour_of (visible world_no_form) (WaitVisible ''#ticketPriceList''))
      = (178 * Second, Some deadlineExceeded)"
    by (simp add: world_no_form_def page_no_marker_def behaviour_of_def Minute_def Second_def)
  from autofill_failure_falls_back [OF 1 2 3 4 5 6] show ?thesis
    by (simp add: u)
qed

text \<open>
  Claim C7 as stated fails: on a form without a price selector the select step fails
  to choose a ticket, its script returns \<open>false\<close>, and no action returns an error.  The
  auto-fill returns \<open>nil\<close>, and the cycle logs that the form was filled, with no
  instruction to go to the target URL by hand.
\<close>

theorem missing_selector_counterexample:
  "\<not> select_script (visible world_no_selector)
   \<and> af_err (autoFillAndWaitForCaptcha world_no_selector ''http://t'') = None
   \<and> runCheck_auto (initBrowser globals0) config_auto_example world_no_selector =
       (\<lparr>events = [Log (LogChecking ''http://t''), Log (LogFoundArea remaining_5),
                   Log LogLaunchingAutoFill, Log LogOpeningBrowser, Log LogNavigating,
                   VisibleBrowser None, Log LogFillSummary, Log LogAutoFillDone,
                   Log LogKeepRunningHint],
         status = Continue, elapsed = 4 * Second + (7100 * Millisecond + 3 * Minute)\<rparr>,
        initBrowser globals0)"
proof -
  have 1: "\<not> select_script (visible world_no_selector)"
    by (simp add: select_script_def world_no_selector_def page_no_selector_def)
  have r: "Run page_no_selector (3 * Minute) (fill_actions ''http://t'')
     = (7100 * Millisecond, None)"
    by (simp add: Run_def page_no_selector_def fill_actions_def
        behaviour_of_def Minute_def Second_def Millisecond_def)
  have a: "autoFillAndWaitForCaptcha world_no_selector ''http://t'' =
     \<lparr>af_err = None,
      af_events = [Log LogOpeningBrowser, Log LogNavigating, VisibleBrowser None,
                   Log LogFillSummary],
      af_steps_done = 7100 * Millisecond, af_return = 7100 * Millisecond + 3 * Minute,
      af_closed = min (3 * Minute) (7100 * Millisecond + 3 * Minute)\<rparr>"
    by (simp add: autoFillAndWaitForCaptcha_def r Let_def world_no_selector_def chromePaths_def)
  have c: "check_texts page_tickets ''http://t'' =
      \<lparr>available = True, err = None,
       plog = [LogChecking ''http://t'', LogFoundArea remaining_5], ptime = 4 * Second\<rparr>"
    by (simp add: check_texts_found [OF page_tickets_run] page_tickets_texts
        remaining_5_def kw_remaining_def kw_hot_def)
  have p: "checkTicketAvailability_auto (initBrowser globals0) (page world_no_selector) ''http://t''
      = Some (check_texts page_tickets ''http://t'')"
    by (simp add: world_no_selector_def initBrowser_globals0 checkTicketAvailability_auto_def)
  have 3: "runCheck_auto (initBrowser globals0) config_auto_example world_no_selector =
       (\<lparr>events = [Log (LogChecking ''http://t''), Log (LogFoundArea remaining_5),
                   Log LogLaunchingAutoFill, Log LogOpeningBrowser, Log LogNavigating,
                   VisibleBrowser None, Log LogFillSummary, Log LogAutoFillDone,
                   Log LogKeepRunningHint],
         status = Continue, elapsed = 4 * Second + (7100 * Millisecond + 3 * Minute)\<rparr>,
        initBrowser globals0)"
    by (simp add: runCheck_auto_def config_auto_example_def p c a Let_def)
  from 1 a 3 show ?thesis by simp
qed

subsection \<open>C8: the three minutes of the visible browser\<close>

lemma run_actions_sleeps:
  "run_actions b left as = (t, None) \<Longrightarrow> sleeps as \<le> t"
proof (induction as arbitrary: left t)
  case Nil
  then show ?case by simp
next
  case (Cons a as)
  obtain t1 r1 where p1: "perform left (behaviour_of b a) = (t1, r1)"
    by (cases "perform left (behaviour_of b a)")
  with Cons.prems have r1: "r1 = None" by (cases r1) simp_all
  obtain t2 r2 where p2: "run_actions b (left - t1) as = (t2, r2)"
    by (cases "run_actions b (left - t1) as")
  with Cons.prems p1 r1 have t: "t = t1 + t2" and r2: "r2 = None" by simp_all
  from Cons.IH [OF p2 [unfolded r2]] have le: "sleeps as \<le> t2" .
  show ?case
  proof (cases a)
    case (Sleep d)
    with p1 r1 have "t1 = d" by (simp add: behaviour_of_def split: if_splits)
    with le t Sleep show ?thesis by simp
  qed (use le t in simp_all)
qed

text \<open>
  Whenever the scripted steps succeed, the function returns three minutes after
  they ended, but the context of the visible browser is done three minutes after its
  creation, which is at least 1.1 seconds (the three \<open>Sleep\<close> actions) earlier.
\<close>

lemma autofill_hold_is_short:
  assumes "af_err (autoFillAndWaitForCaptcha w url) = None"
  shows "af_return (autoFillAndWaitForCaptcha w url)
           = af_steps_done (autoFillAndWaitForCaptcha w url) + 3 * Minute
       \<and> af_closed (autoFillAndWaitForCaptcha w url) = 3 * Minute
       \<and> 1100 * Millisecond \<le> af_steps_done (autoFillAndWaitForCaptcha w url)"
proof -
  obtain t r where r: "Run (visible w) (3 * Minute) (fill_actions url) = (t, r)"
    by (cases "Run (visible w) (3 * Minute) (fill_actions url)")
  with assms have n: "r = None"
    by (cases r) (simp_all add: autoFillAndWaitForCaptcha_def Let_def)
  from r n have "run_actions (visible w) (3 * Minute) (Allocate # fill_actions url) = (t, None)"
    by (simp add: Run_def)
  then have "sleeps (Allocate # fill_actions url) \<le> t"
    by (rule run_actions_sleeps)
  then have "1100 * Millisecond \<le> t" by (simp add: fill_actions_def)
  then show ?thesis by (simp add: autoFillAndWaitForCaptcha_def Let_def r n)
qed

text \<open>
  Claim C8 at a page where every action takes one second: the steps end after 7.1
  seconds, the function returns 3 minutes later, and the visible browser is closed at
  3 minutes, 7.1 seconds before the end of the 3 minutes the user was to have.
\<close>

theorem autofill_hold_cut_short:
  "af_err (autoFillAndWaitForCaptcha world_button ''http://t'') = None
   \<and> af_steps_done (autoFillAndWaitForCaptcha world_button ''http://t'') = 7100 * Millisecond
   \<and> af_return (autoFillAndWaitForCaptcha world_button ''http://t'')
       = 7100 * Millisecond + 3 * Minute
   \<and> af_closed (autoFillAndWaitForCaptcha world_button ''http://t'') = 3 * Minute
   \<and> af_closed (autoFillAndWaitForCaptcha world_button ''http://t'')
       < af_steps_done (autoFillAndWaitForCaptcha world_button ''http://t'') + 3 * Minute"
proof -
  have "Run (visible world_button) (3 * Minute) (fill_actions ''http://t'')
     = (7100 * Millisecond, None)"
    by (simp add: Run_def world_button_def page_tickets_def fill_actions_def behaviour_of_def
        Minute_def Second_def Millisecond_def)
  then show ?thesis
    by (simp add: autoFillAndWaitForCaptcha_def Let_def Minute_def Second_def Millisecond_def)
qed

subsection \<open>C9: what loadConfig refuses and what it fills in\<close>

lemma Atoi_defaults: "Atoi ''60'' = Some 60" "Atoi ''587'' = Some 587"
  by (simp_all add: Atoi_def digit_of_def)

lemma loadConfig_Inr:
  assumes "loadConfig env = Inr c"
  shows "\<exists>port n.
      Atoi (if Getenv env ''SMTP_PORT'' = [] then ''587'' else Getenv env ''SMTP_PORT'') = Some port
      \<and> Atoi (if Getenv env ''CHECK_INTERVAL_SECONDS'' = [] then ''60''
               else Getenv env ''CHECK_INTERVAL_SECONDS'') = Some n
      \<and> c = \<lparr>TargetURL = Getenv env ''TARGET_URL'', CheckInterval = seconds n,
              RecipientEmail = Getenv env ''RECIPIENT_EMAIL'',
              SenderEmail = Getenv env ''SENDER_EMAIL'',
              SenderPassword = remove_spaces (Getenv env ''SENDER_PASSWORD''),
              SmtpHost = Getenv env ''SMTP_HOST'', SmtpPort = port\<rparr>
      \<and> Getenv env ''TARGET_URL'' \<noteq> [] \<and> Getenv env ''RECIPIENT_EMAIL'' \<noteq> []
      \<and> Getenv env ''SENDER_EMAIL'' \<noteq> []
      \<and> remove_spaces (Getenv env ''SENDER_PASSWORD'') \<noteq> []
      \<and> Getenv env ''SMTP_HOST'' \<noteq> []"
  using assms unfolding loadConfig_def Let_def
  by (auto split: option.splits if_splits)

lemma loadConfig_auto_Inr:
  assumes "loadConfig_auto env = Inr c"
  shows "\<exists>n.
      Atoi (if Getenv env ''CHECK_INTERVAL_SECONDS'' = [] then ''60''
            else Getenv env ''CHECK_INTERVAL_SECONDS'') = Some n
      \<and> c = \<lparr>TargetURL = Getenv env ''TARGET_URL'', CheckInterval = seconds n\<rparr>
      \<and> Getenv env ''TARGET_URL'' \<noteq> []"
  using assms unfolding loadConfig_auto_def Let_def
  by (auto split: option.splits if_splits)

text \<open>
  Claim C9, as amended.  When a required variable is unset or empty (the password
  after its spaces are removed), or the port or the interval is given and is not a
  decimal integer, \<open>loadConfig\<close> returns an error and \<open>main\<close> ends with \<open>log.Fatalf\<close>
  before any cycle.  An accepted configuration has as its interval the integer given,
  times one second in 64-bit arithmetic, with no lower bound; the interval is 60
  seconds and the port 587 when they are not given.  An accepted interval that is
  zero or negative stops \<open>main\<close> only by the panic of \<open>time.NewTicker\<close>.
\<close>

theorem loadConfig_refuses_and_defaults:
  "(Getenv env ''TARGET_URL'' = [] \<or> Getenv env ''RECIPIENT_EMAIL'' = []
      \<or> Getenv env ''SENDER_EMAIL'' = [] \<or> remove_spaces (Getenv env ''SENDER_PASSWORD'') = []
      \<or> Getenv env ''SMTP_HOST'' = []
      \<or> (Getenv env ''SMTP_PORT'' \<noteq> [] \<and> Atoi (Getenv env ''SMTP_PORT'') = None)
      \<or> (Getenv env ''CHECK_INTERVAL_SECONDS'' \<noteq> []
          \<and> Atoi (Getenv env ''CHECK_INTERVAL_SECONDS'') = None) \<longrightarrow>
    (\<exists>e. loadConfig env = Inl e \<and> main_btn env ws fuel = (Fatal e, [])
         \<and> main_mail env ws fuel = (Fatal e, [])))
   \<and> (Getenv env ''TARGET_URL'' = []
      \<or> (Getenv env ''CHECK_INTERVAL_SECONDS'' \<noteq> []
          \<and> Atoi (Getenv env ''CHECK_INTERVAL_SECONDS'') = None) \<longrightarrow>
    (\<exists>e. loadConfig_auto env = Inl e \<and> main_auto env ws fuel = (Fatal e, [])))
   \<and> (\<forall>c. loadConfig env = Inr c \<longrightarrow>
        (\<exists>n. Atoi (if Getenv env ''CHECK_INTERVAL_SECONDS'' = [] then ''60''
                    else Getenv env ''CHECK_INTERVAL_SECONDS'') = Some n
             \<and> CheckInterval c = seconds n)
        \<and> (Getenv env ''CHECK_INTERVAL_SECONDS'' = [] \<longrightarrow> CheckInterval c = 60000000000)
        \<and> (Getenv env ''SMTP_PORT'' = [] \<longrightarrow> SmtpPort c = 587)
        \<and> (sint (CheckInterval c) \<le> 0 \<longrightarrow>
             main_btn env ws fuel = (TickerPanic, []) \<and> main_mail env ws fuel = (TickerPanic, [])))
   \<and> (\<forall>c. loadConfig_auto env = Inr c \<longrightarrow>
        (Getenv env ''CHECK_INTERVAL_SECONDS'' = [] \<longrightarrow> CheckInterval c = 60000000000)
        \<and> (sint (CheckInterval c) \<le> 0 \<longrightarrow> main_auto env ws fuel = (TickerPanic, [])))"
proof (intro conjI impI allI)
  assume bad: "Getenv env ''TARGET_URL'' = [] \<or> Getenv env ''RECIPIENT_EMAIL'' = []
      \<or> Getenv env ''SENDER_EMAIL'' = [] \<or> remove_spaces (Getenv env ''SENDER_PASSWORD'') = []
      \<or> Getenv env ''SMTP_HOST'' = []
      \<or> (Getenv env ''SMTP_PORT'' \<noteq> [] \<and> Atoi (Getenv env ''SMTP_PORT'') = None)
      \<or> (Getenv env ''CHECK_INTERVAL_SECONDS'' \<noteq> []
          \<and> Atoi (Getenv env ''CHECK_INTERVAL_SECONDS'') = None)"
  have "\<exists>e. loadConfig env = Inl e"
  proof (cases "loadConfig env")
    case (Inl e)
    then show ?thesis by simp
  next
    case (Inr c)
    from loadConfig_Inr [OF this] bad show ?thesis by (auto split: if_splits)
  qed
  then obtain e where e: "loadConfig env = Inl e" ..
  then show "\<exists>e. loadConfig env = Inl e \<and> main_btn env ws fuel = (Fatal e, [])
         \<and> main_mail env ws fuel = (Fatal e, [])"
    by (simp add: main_btn_def main_mail_def main_startup_def)
next
  assume bad: "Getenv env ''TARGET_URL'' = []
      \<or> (Getenv env ''CHECK_INTERVAL_SECONDS'' \<noteq> []
          \<and> Atoi (Getenv env ''CHECK_INTERVAL_SECONDS'') = None)"
  have "\<exists>e. loadConfig_auto env = Inl e"
  proof (cases "loadConfig_auto env")
    case (Inl e)
    then show ?thesis by simp
  next
    case (Inr c)
    from loadConfig_auto_Inr [OF this] bad show ?thesis by (auto split: if_splits)
  qed
  then obtain e where e: "loadConfig_auto env = Inl e" ..
  then show "\<exists>e. loadConfig_auto env = Inl e \<and> main_auto env ws fuel = (Fatal e, [])"
    by (simp add: main_auto_def main_startup_def)
next
  fix c assume c: "loadConfig env = Inr c"
  from loadConfig_Inr [OF c]
  show "\<exists>n. Atoi (if Getenv env ''CHECK_INTERVAL_SECONDS'' = [] then ''60''
                    else Getenv env ''CHECK_INTERVAL_SECONDS'') = Some n
             \<and> CheckInterval c = seconds n"
    by auto
  {
    assume "Getenv env ''CHECK_INTERVAL_SECONDS'' = []"
    with loadConfig_Inr [OF c] show "CheckInterval c = 60000000000"
      by (auto simp: Atoi_defaults seconds_def)
  }
  {
    assume "Getenv env ''SMTP_PORT'' = []"
    with loadConfig_Inr [OF c] show "SmtpPort c = 587"
      by (auto simp: Atoi_defaults)
  }
  {
    assume "sint (CheckInterval c) \<le> 0"
    then show "main_btn env ws fuel = (TickerPanic, [])" "main_mail env ws fuel = (TickerPanic, [])"
      by (simp_all add: main_btn_def main_mail_def main_startup_def c)
  }
next
  fix c assume c: "loadConfig_auto env = Inr c"
  {
    assume "Getenv env ''CHECK_INTERVAL_SECONDS'' = []"
    with loadConfig_auto_Inr [OF c] show "CheckInterval c = 60000000000"
      by (auto simp: Atoi_defaults seconds_def)
  }
  {
    assume "sint (CheckInterval c) \<le> 0"
    then show "main_auto env ws fuel = (TickerPanic, [])"
      by (simp add: main_auto_def main_startup_def c)
  }
qed

lemma loadConfig_env_zero:
  "loadConfig env_zero =
     Inr \<lparr>TargetURL = ''http://t'', CheckInterval = 0,
          RecipientEmail = ''you@example.com'', SenderEmail = ''sender@gmail.com'',
          SenderPassword = ''abcdefgh'', SmtpHost = ''smtp.gmail.com'', SmtpPort = 587\<rparr>"
  by (simp add: loadConfig_def env_zero_def env_example_def Getenv_def Atoi_def digit_of_def
      seconds_def remove_spaces_def)

text \<open>
  Claim C9 as stated fails: with \<open>CHECK_INTERVAL_SECONDS=0\<close> the configuration is
  accepted and its interval is zero, less than one second.
\<close>

theorem zero_interval_counterexample:
  "loadConfig env_zero =
     Inr \<lparr>TargetURL = ''http://t'', CheckInterval = 0,
          RecipientEmail = ''you@example.com'', SenderEmail = ''sender@gmail.com'',
          SenderPassword = ''abcdefgh'', SmtpHost = ''smtp.gmail.com'', SmtpPort = 587\<rparr>
   \<and> sint (0 :: 64 word) < int Second"
  by (simp add: loadConfig_env_zero Second_def)

text \<open>
  An interval can be below one second and positive, so that the loop is reached: the
  64-bit product of 20211507185753197 and \<open>10^9\<close> is 512 nanoseconds.
\<close>

lemma loadConfig_env_wrapping:
  "main_startup (loadConfig env_wrapping) =
     Scheduling \<lparr>TargetURL = ''http://t'', CheckInterval = 512,
          RecipientEmail = ''you@example.com'', SenderEmail = ''sender@gmail.com'',
          SenderPassword = ''abcdefgh'', SmtpHost = ''smtp.gmail.com'', SmtpPort = 587\<rparr>"
  by (simp add: loadConfig_def env_wrapping_def env_example_def Getenv_def Atoi_def digit_of_def
      seconds_def remove_spaces_def main_startup_def)

text \<open>No target URL; the defaults; an interval of zero.\<close>

theorem loadConfig_refuses_and_defaults_witness:
  "loadConfig env_no_url = Inl TargetURLUnset
   \<and> main_btn env_no_url (\<lambda>i. world_button) 3 = (Fatal TargetURLUnset, [])
   \<and> loadConfig env_example = Inr config_example
   \<and> CheckInterval config_example = 60000000000 \<and> SmtpPort config_example = 587
   \<and> main_mail env_zero (\<lambda>i. world_button) 3 = (TickerPanic, [])"
proof -
  have 1: "Getenv env_no_url ''TARGET_URL'' = []"
    by (simp add: env_no_url_def Getenv_def)
  have 2: "loadConfig env_no_url = Inl TargetURLUnset"
    by (simp add: loadConfig_def env_no_url_def env_example_def Getenv_def Atoi_def digit_of_def
        seconds_def remove_spaces_def)
  have 3: "Getenv env_example ''CHECK_INTERVAL_SECONDS'' = []" "Getenv env_example ''SMTP_PORT'' = []"
    by (simp_all add: env_example_def Getenv_def)
  from loadConfig_refuses_and_defaults [of env_no_url "\<lambda>i. world_button" 3] 1 2
  have a: "main_btn env_no_url (\<lambda>i. world_button) 3 = (Fatal TargetURLUnset, [])"
    by auto
  from loadConfig_refuses_and_defaults [of env_example "\<lambda>i. world_button" 3] 3 loadConfig_example
  have b: "CheckInterval config_example = 60000000000 \<and> SmtpPort config_example = 587"
    by auto
  from loadConfig_refuses_and_defaults [of env_zero "\<lambda>i. world_button" 3] loadConfig_env_zero
  have c: "main_mail env_zero (\<lambda>i. world_button) 3 = (TickerPanic, [])"
    by auto
  from 2 a b c loadConfig_example show ?thesis by simp
qed

end
